theory Spec2Isabelle
  imports Complex_Main
begin

section \<open>Feedback-loop hiring simulation: a shallow embedding\<close>

text \<open>
  The development follows \<^verbatim>\<open>app/utils.py\<close>, \<^verbatim>\<open>app/metrics.py\<close> and
  \<^verbatim>\<open>app/simulation.py\<close>. Python integers are \<open>int\<close>. A Python float is an IEEE-754
  double; it is modelled by the real number it denotes, and the arithmetic of the program
  is modelled operation by operation, each one rounding its exact result to the nearest
  double. The two string-valued group labels \<^verbatim>\<open>"A"\<close> and \<^verbatim>\<open>"B"\<close> (the only labels the
  generator ever produces, and the only keys of the platform's dictionary) are the two
  constructors of a datatype. The pseudo-random generator \<^verbatim>\<open>random.Random\<close> belongs to
  the Python standard library, not to the repository; it is a parameter of the model: a
  state type with a seeding function, a uniform draw and a Gaussian draw, each draw
  returning the value and the successor state.
\<close>

subsection \<open>Double-precision arithmetic\<close>

text \<open>
  Rounding to the nearest integer, a tie going to the even neighbour.
\<close>

definition round_half_even :: "real \<Rightarrow> int" where
  "round_half_even y =
     (let f = \<lfloor>y\<rfloor>; d = y - of_int f
      in if d < 1 / 2 then f
         else if 1 / 2 < d then f + 1
         else if even f then f else f + 1)"

text \<open>
  The doubles are the integer multiples \<open>m * 2\<^sup>e\<close> with \<open>\<bar>m\<bar> < 2\<^sup>5\<^sup>3\<close> and
  \<open>-1074 \<le> e \<le> 971\<close>. Around a real \<open>x\<close> they are spaced \<open>2\<close> to the power
  \<open>ulp_exponent x\<close> apart: 52 binary places below the leading bit of \<open>x\<close>, and never
  finer than \<open>2\<^sup>-\<^sup>1\<^sup>0\<^sup>7\<^sup>4\<close>. \<open>double_round x\<close> is the double nearest to \<open>x\<close>, a
  tie going to the even multiple. A result of magnitude \<open>2\<^sup>1\<^sup>0\<^sup>2\<^sup>4\<close> or more is an
  overflow, which IEEE arithmetic turns into an infinity: the model has no separate
  value for the infinities, the reals \<open>2\<^sup>1\<^sup>0\<^sup>2\<^sup>4\<close> and \<open>-2\<^sup>1\<^sup>0\<^sup>2\<^sup>4\<close> stand for them, and
  \<open>is_inf\<close> recognises them.
\<close>

definition ulp_exponent :: "real \<Rightarrow> int" where
  "ulp_exponent x = max \<lfloor>log 2 \<bar>x\<bar>\<rfloor> (- 1022) - 52"

definition double_round :: "real \<Rightarrow> real" where
  "double_round x =
     (if x = 0 then 0
      else let u = 2 powi ulp_exponent x;
               r = of_int (round_half_even (x / u)) * u
           in if 2 ^ 1024 \<le> r then 2 ^ 1024
              else if r \<le> - (2 ^ 1024) then - (2 ^ 1024)
              else r)"

definition is_inf :: "real \<Rightarrow> bool" where
  "is_inf x = (2 ^ 1024 \<le> \<bar>x\<bar>)"

text \<open>
  The four operations on floats. An infinite operand of a sum is its result. In every
  product and quotient of the program both operands are finite, and in every sum and
  difference the first operand is finite (each is a parameter, a value in \<open>[0, 1]\<close>, or a
  product with a factor in \<open>[0, 1]\<close>), so the program never forms a NaN, and the model
  has no value for one.
\<close>

definition fadd :: "real \<Rightarrow> real \<Rightarrow> real" where
  "fadd x y = (if is_inf y then y else if is_inf x then x else double_round (x + y))"

definition fsub :: "real \<Rightarrow> real \<Rightarrow> real" where
  "fsub x y = fadd x (- y)"

definition fmul :: "real \<Rightarrow> real \<Rightarrow> real" where
  "fmul x y = double_round (x * y)"

definition fdiv :: "real \<Rightarrow> real \<Rightarrow> real" where
  "fdiv x y = double_round (x / y)"

subsection \<open>Numeric utilities (\<^verbatim>\<open>utils.py\<close>)\<close>

text \<open>
  The two exceptions the built-in functions used by the program can raise:
  \<^verbatim>\<open>math.log2\<close> raises \<^verbatim>\<open>ValueError\<close> (math domain error) on every argument that is
  not strictly positive, and \<^verbatim>\<open>int\<close> raises \<^verbatim>\<open>OverflowError\<close> on an infinity.
\<close>

datatype error = ValueError | OverflowError

definition clamp :: "real \<Rightarrow> real \<Rightarrow> real \<Rightarrow> real" where
  "clamp val lo hi = max lo (min hi val)"

definition log2 :: "real \<Rightarrow> error + real" where
  "log2 x = (if 0 < x then Inr (log 2 x) else Inl ValueError)"

text \<open>
  The value of the logarithm is a matter of the C library; the entropy is kept as the
  exact expression in the exact logarithm. Nothing below depends on its value, only on
  which branch is taken.
\<close>

definition shannon_entropy :: "real \<Rightarrow> error + real" where
  "shannon_entropy p =
     (if p \<le> 0 \<or> p \<ge> 1 then Inr 0
      else (case log2 p of
              Inl e \<Rightarrow> Inl e
            | Inr l1 \<Rightarrow>
                (case log2 (1 - p) of
                   Inl e \<Rightarrow> Inl e
                 | Inr l2 \<Rightarrow> Inr (- (p * l1 + (1 - p) * l2)))))"

text \<open>
  Everywhere the program calls \<^verbatim>\<open>safe_div\<close> the two arguments are integers (a sum and
  a length), and Python's quotient of two integers is the double nearest to the exact
  quotient.
\<close>

definition safe_div :: "real \<Rightarrow> real \<Rightarrow> real \<Rightarrow> real" where
  "safe_div numerator denominator dflt =
     (if denominator \<noteq> 0 then fdiv numerator denominator else dflt)"

text \<open>
  Python's \<^verbatim>\<open>int(x)\<close> on a float truncates toward zero and raises
  \<^verbatim>\<open>OverflowError\<close> on an infinity. \<^verbatim>\<open>round(x, n)\<close> rounds the exact value of the
  double \<open>x\<close> to \<open>n\<close> decimal digits, a tie going to the even neighbour, and returns the
  double nearest to that decimal.
\<close>

definition py_int :: "real \<Rightarrow> error + int" where
  "py_int x = (if is_inf x then Inl OverflowError
               else Inr (if 0 \<le> x then \<lfloor>x\<rfloor> else \<lceil>x\<rceil>))"

definition py_round :: "real \<Rightarrow> nat \<Rightarrow> real" where
  "py_round x ndigits =
     double_round (of_int (round_half_even (x * 10 ^ ndigits)) / 10 ^ ndigits)"

subsection \<open>Actors and parameters (\<^verbatim>\<open>simulation.py\<close>)\<close>

datatype grp = GroupA | GroupB

record Agent =
  group :: grp
  skill :: real
  trust_in_algorithm :: real
  adaptation_speed :: real
  risk_tolerance :: real
  preference_for_high :: real

record HRDepartment =
  trust_in_model :: real
  institutional_bias :: real
  hiring_threshold :: real
  hiring_capacity :: real

record Platform =
  learning_rate :: real
  diversity_regularization :: real
  feedback_weight :: real
  p_high :: "grp \<Rightarrow> real"

text \<open>
  Three fields of \<^verbatim>\<open>SimParams\<close> share their names with fields of the actors; they
  carry the prefix \<open>param_\<close> here. A float field holds a finite double: the
  parameter written \<^verbatim>\<open>0.3\<close> in Python is the real \<open>double_round 0.3\<close>. A parameter
  that is itself an infinity or a NaN is outside the model.
\<close>

record SimParams =
  n_agents :: int
  group_imbalance :: real
  seed :: int
  t_user :: real
  a_user :: real
  r_user :: real
  t_hr :: real
  b_hr :: real
  param_hiring_threshold :: real
  param_hiring_capacity :: real
  lr :: real
  diversity_reg :: real
  param_feedback_weight :: real
  iterations :: int

record 'g prng =
  rng_seed :: "int \<Rightarrow> 'g"
  rng_random :: "'g \<Rightarrow> real \<times> 'g"
  rng_gauss :: "real \<Rightarrow> real \<Rightarrow> 'g \<Rightarrow> real \<times> 'g"

subsection \<open>Metrics (\<^verbatim>\<open>metrics.py\<close>)\<close>

record MetricSnapshot =
  exposure_high_A :: real
  exposure_high_B :: real
  choice_high_A :: real
  choice_high_B :: real
  acceptance_rate_A :: real
  acceptance_rate_B :: real
  diversity_entropy_A :: real
  diversity_entropy_B :: real
  disparity_exposure :: real
  disparity_accept :: real
  reinforcement_index :: real
  p_high_A :: real
  p_high_B :: real

text \<open>
  The generator expressions of \<^verbatim>\<open>compute_iteration_metrics\<close>: the number of members
  of a group, the sum of an integer vector over the members of a group, and the number of
  accepted members of a group.
\<close>

definition count_group :: "grp \<Rightarrow> grp list \<Rightarrow> int" where
  "count_group g groups = int (length (filter (\<lambda>x. x = g) groups))"

definition sum_group :: "grp \<Rightarrow> grp list \<Rightarrow> int list \<Rightarrow> int" where
  "sum_group g groups levels =
     sum_list (map snd (filter (\<lambda>(x, s). x = g) (zip groups levels)))"

definition count_accepted :: "grp \<Rightarrow> grp list \<Rightarrow> bool list \<Rightarrow> int" where
  "count_accepted g groups accepted =
     int (length (filter (\<lambda>(x, a). x = g \<and> a) (zip groups accepted)))"

definition compute_iteration_metrics ::
  "grp list \<Rightarrow> int list \<Rightarrow> int list \<Rightarrow> bool list \<Rightarrow> real \<Rightarrow> real \<Rightarrow> real option
     \<Rightarrow> error + MetricSnapshot" where
  "compute_iteration_metrics groups shown_levels chosen_levels accepted pA pB
       prev_disparity_exposure =
     (let n_A = count_group GroupA groups;
          n_B = count_group GroupB groups;
          shown_A = sum_group GroupA groups shown_levels;
          shown_B = sum_group GroupB groups shown_levels;
          exposure_A = safe_div (of_int shown_A) (of_int n_A) 0;
          exposure_B = safe_div (of_int shown_B) (of_int n_B) 0;
          chose_A = sum_group GroupA groups chosen_levels;
          chose_B = sum_group GroupB groups chosen_levels;
          choice_A = safe_div (of_int chose_A) (of_int n_A) 0;
          choice_B = safe_div (of_int chose_B) (of_int n_B) 0;
          acc_A = count_accepted GroupA groups accepted;
          acc_B = count_accepted GroupB groups accepted;
          rate_A = safe_div (of_int acc_A) (of_int n_A) 0;
          rate_B = safe_div (of_int acc_B) (of_int n_B) 0
      in case shannon_entropy exposure_A of
           Inl e \<Rightarrow> Inl e
         | Inr entropy_A \<Rightarrow>
             (case shannon_entropy exposure_B of
                Inl e \<Rightarrow> Inl e
              | Inr entropy_B \<Rightarrow>
                  (let disp_exposure = fsub exposure_A exposure_B;
                       disp_accept = fsub rate_A rate_B;
                       reinforcement =
                         (case prev_disparity_exposure of
                            Some prev \<Rightarrow> fsub disp_exposure prev
                          | None \<Rightarrow> 0)
                   in Inr \<lparr>exposure_high_A = py_round exposure_A 6,
                           exposure_high_B = py_round exposure_B 6,
                           choice_high_A = py_round choice_A 6,
                           choice_high_B = py_round choice_B 6,
                           acceptance_rate_A = py_round rate_A 6,
                           acceptance_rate_B = py_round rate_B 6,
                           diversity_entropy_A = py_round entropy_A 6,
                           diversity_entropy_B = py_round entropy_B 6,
                           disparity_exposure = py_round disp_exposure 6,
                           disparity_accept = py_round disp_accept 6,
                           reinforcement_index = py_round reinforcement 6,
                           p_high_A = py_round pA 6,
                           p_high_B = py_round pB 6\<rparr>)))"

subsection \<open>Population generation\<close>

text \<open>
  The deviations \<^verbatim>\<open>0.15\<close> and \<^verbatim>\<open>0.05\<close> are the doubles nearest to these decimals;
  \<^verbatim>\<open>0.5\<close> and \<^verbatim>\<open>0\<close> are doubles as written.
\<close>

fun make_agents :: "'g prng \<Rightarrow> SimParams \<Rightarrow> nat \<Rightarrow> 'g \<Rightarrow> Agent list \<times> 'g" where
  "make_agents G params 0 r = ([], r)"
| "make_agents G params (Suc n) r =
     (case rng_random G r of (u, r1) \<Rightarrow>
      case rng_gauss G 0.5 (double_round 0.15) r1 of (z1, r2) \<Rightarrow>
      case rng_gauss G 0 (double_round 0.05) r2 of (z2, r3) \<Rightarrow>
      case make_agents G params n r3 of (rest, r4) \<Rightarrow>
        (\<lparr>group = (if u < group_imbalance params then GroupA else GroupB),
          skill = clamp z1 0 1,
          trust_in_algorithm = t_user params,
          adaptation_speed = a_user params,
          risk_tolerance = r_user params,
          preference_for_high = clamp (fadd (clamp z1 0 1) z2) 0 1\<rparr> # rest, r4))"

subsection \<open>One round\<close>

record applicant_record =
  r_idx :: nat
  r_group :: grp
  r_final_score :: real
  r_chosen_high :: int
  r_meets_threshold :: bool

text \<open>Steps 1 to 3 for one agent: exposure draw, choice, HR score.\<close>

definition final_score_of :: "HRDepartment \<Rightarrow> Agent \<Rightarrow> real" where
  "final_score_of hr agent =
     (let model_score = skill agent;
          human_score = fsub (skill agent)
                          (if group agent = GroupB then institutional_bias hr else 0)
      in fadd (fmul (trust_in_model hr) model_score)
              (fmul (fsub 1 (trust_in_model hr)) human_score))"

definition agent_step ::
  "'g prng \<Rightarrow> Platform \<Rightarrow> HRDepartment \<Rightarrow> nat \<Rightarrow> Agent \<Rightarrow> 'g
     \<Rightarrow> (int \<times> int \<times> applicant_record) \<times> 'g" where
  "agent_step G platform hr i agent r =
     (let g = group agent;
          p_base = p_high platform g;
          p_final = clamp (fadd (fmul (fsub 1 (diversity_regularization platform)) p_base)
                                (fmul (diversity_regularization platform) 0.5)) 0 1
      in case rng_random G r of (u1, r1) \<Rightarrow>
         let shown_high = (if u1 < p_final then 1 else 0)
         in case rng_random G r1 of (u2, r2) \<Rightarrow>
            case rng_random G r2 of (u3, r3) \<Rightarrow>
            let chosen = (if u2 < trust_in_algorithm agent
                          then (if u3 < risk_tolerance agent then 1 - shown_high else shown_high)
                          else (if u3 < preference_for_high agent then 1 else 0));
                final_score = final_score_of hr agent
            in ((shown_high, chosen,
                 \<lparr>r_idx = i, r_group = g, r_final_score = final_score,
                  r_chosen_high = chosen,
                  r_meets_threshold = (hiring_threshold hr \<le> final_score)\<rparr>), r3))"

text \<open>
  The loop over the agents. The index of a record is the length of
  \<^verbatim>\<open>applicant_records\<close> at the moment it is appended, so the counter starts at \<open>0\<close>.
\<close>

fun agent_loop ::
  "'g prng \<Rightarrow> Platform \<Rightarrow> HRDepartment \<Rightarrow> nat \<Rightarrow> Agent list \<Rightarrow> 'g
     \<Rightarrow> (int \<times> int \<times> applicant_record) list \<times> 'g" where
  "agent_loop G platform hr i [] r = ([], r)"
| "agent_loop G platform hr i (agent # rest) r =
     (case agent_step G platform hr i agent r of (out, r') \<Rightarrow>
      case agent_loop G platform hr (Suc i) rest r' of (outs, r'') \<Rightarrow> (out # outs, r''))"

text \<open>
  The capacity cap, \<^verbatim>\<open>max(1, int(hr.hiring_capacity * len(applicant_records)))\<close>. The
  product is a product of doubles (the length of a list is far below \<open>2\<^sup>5\<^sup>3\<close> and
  converts exactly), and \<^verbatim>\<open>int\<close> raises when the product has overflowed.
\<close>

definition max_accept_of :: "HRDepartment \<Rightarrow> applicant_record list \<Rightarrow> error + int" where
  "max_accept_of hr records =
     (case py_int (fmul (hiring_capacity hr) (of_nat (length records))) of
        Inl e \<Rightarrow> Inl e
      | Inr k \<Rightarrow> Inr (max 1 k))"

text \<open>
  \<^verbatim>\<open>list.sort(key=..., reverse=True)\<close> is a stable sort in descending key order: it is
  the stable ascending sort on the negated key. The list is sorted before the cap is
  computed, and the first \<^verbatim>\<open>max_accept\<close> records of the sorted list give the set of
  accepted indices.
\<close>

definition accepted_set_of :: "HRDepartment \<Rightarrow> applicant_record list \<Rightarrow> error + nat set" where
  "accepted_set_of hr records =
     (let eligible = filter r_meets_threshold records;
          ranked = sort_key (\<lambda>r. - r_final_score r) eligible
      in case max_accept_of hr records of
           Inl e \<Rightarrow> Inl e
         | Inr max_accept \<Rightarrow> Inr (set (map r_idx (take (nat max_accept) ranked))))"

text \<open>Step 4 for one group, and for both groups in the order A, B.\<close>

definition user_chose_high :: "grp \<Rightarrow> applicant_record list \<Rightarrow> int list" where
  "user_chose_high g records = map r_chosen_high (filter (\<lambda>r. r_group r = g) records)"

definition hr_accepted_high :: "grp \<Rightarrow> applicant_record list \<Rightarrow> nat set \<Rightarrow> bool list" where
  "hr_accepted_high g records accepted_set =
     map (\<lambda>r. r_idx r \<in> accepted_set)
       (filter (\<lambda>r. r_group r = g \<and> r_chosen_high r = 1) records)"

definition observed_signal ::
  "Platform \<Rightarrow> applicant_record list \<Rightarrow> nat set \<Rightarrow> grp \<Rightarrow> real" where
  "observed_signal platform records accepted_set g =
     (let u_list = user_chose_high g records;
          user_signal = safe_div (of_int (sum_list u_list)) (of_nat (length u_list)) 0;
          h_list = hr_accepted_high g records accepted_set;
          hr_signal = (if h_list \<noteq> []
                       then safe_div (of_nat (length (filter id h_list)))
                              (of_nat (length h_list)) 0
                       else user_signal)
      in fadd (fmul (feedback_weight platform) user_signal)
              (fmul (fsub 1 (feedback_weight platform)) hr_signal))"

definition update_group ::
  "applicant_record list \<Rightarrow> nat set \<Rightarrow> grp \<Rightarrow> Platform \<Rightarrow> Platform" where
  "update_group records accepted_set g platform =
     platform\<lparr>p_high := (p_high platform)
       (g := clamp (fadd (fmul (fsub 1 (learning_rate platform)) (p_high platform g))
                         (fmul (learning_rate platform)
                               (observed_signal platform records accepted_set g)))
               0 1)\<rparr>"

definition platform_feedback ::
  "applicant_record list \<Rightarrow> nat set \<Rightarrow> Platform \<Rightarrow> Platform" where
  "platform_feedback records accepted_set platform =
     fold (update_group records accepted_set) [GroupA, GroupB] platform"

text \<open>Step 5 for one agent.\<close>

definition internalize :: "Agent \<Rightarrow> int \<Rightarrow> Agent" where
  "internalize agent shown =
     agent\<lparr>preference_for_high :=
       clamp (fadd (fmul (fsub 1 (adaptation_speed agent)) (preference_for_high agent))
                   (fmul (adaptation_speed agent) (of_int shown))) 0 1\<rparr>"

record 'g sim_state =
  st_agents :: "Agent list"
  st_hr :: HRDepartment
  st_platform :: Platform
  st_rng :: 'g
  st_prev_disparity :: "real option"
  st_history :: "MetricSnapshot list"

text \<open>
  One round. The only statement of the round that can raise is the computation of the
  cap; it comes after the loop over the agents and before any update of the state.
\<close>

definition iteration :: "'g prng \<Rightarrow> 'g sim_state \<Rightarrow> error + 'g sim_state" where
  "iteration G s =
     (case agent_loop G (st_platform s) (st_hr s) 0 (st_agents s) (st_rng s) of (outs, r') \<Rightarrow>
      (let groups = map group (st_agents s);
           shown_levels = map fst outs;
           chosen_levels = map (\<lambda>out. fst (snd out)) outs;
           applicant_records = map (\<lambda>out. snd (snd out)) outs
       in (case accepted_set_of (st_hr s) applicant_records of
             Inl e \<Rightarrow> Inl e
           | Inr accepted_set \<Rightarrow>
               (let accepted_flags = map (\<lambda>r. r_idx r \<in> accepted_set) applicant_records;
                    platform' = platform_feedback applicant_records accepted_set (st_platform s);
                    agents' = map2 internalize (st_agents s) shown_levels
                in (case compute_iteration_metrics groups shown_levels chosen_levels
                           accepted_flags (p_high platform' GroupA) (p_high platform' GroupB)
                           (st_prev_disparity s) of
                      Inl e \<Rightarrow> Inl e
                    | Inr snapshot \<Rightarrow>
                        Inr (s\<lparr>st_agents := agents',
                               st_platform := platform',
                               st_rng := r',
                               st_prev_disparity := Some (disparity_exposure snapshot),
                               st_history := st_history s @ [snapshot]\<rparr>))))))"

subsection \<open>The run\<close>

fun run_loop :: "'g prng \<Rightarrow> nat \<Rightarrow> 'g sim_state \<Rightarrow> error + 'g sim_state" where
  "run_loop G 0 s = Inr s"
| "run_loop G (Suc n) s =
     (case iteration G s of Inl e \<Rightarrow> Inl e | Inr s' \<Rightarrow> run_loop G n s')"

definition init_state :: "'g prng \<Rightarrow> SimParams \<Rightarrow> 'g sim_state" where
  "init_state G params =
     (case make_agents G params (nat (n_agents params)) (rng_seed G (seed params)) of
        (agents, r) \<Rightarrow>
          \<lparr>st_agents = agents,
           st_hr = \<lparr>trust_in_model = t_hr params,
                    institutional_bias = b_hr params,
                    hiring_threshold = param_hiring_threshold params,
                    hiring_capacity = param_hiring_capacity params\<rparr>,
           st_platform = \<lparr>learning_rate = lr params,
                          diversity_regularization = diversity_reg params,
                          feedback_weight = param_feedback_weight params,
                          p_high = (\<lambda>g. 0.5)\<rparr>,
           st_rng = r,
           st_prev_disparity = None,
           st_history = []\<rparr>)"

record sim_result =
  res_iterations :: "MetricSnapshot list"
  res_params :: SimParams

definition run_simulation :: "'g prng \<Rightarrow> SimParams \<Rightarrow> error + sim_result" where
  "run_simulation G params =
     (case run_loop G (nat (iterations params)) (init_state G params) of
        Inl e \<Rightarrow> Inl e
      | Inr s \<Rightarrow>
          Inr \<lparr>res_iterations = st_history s,
               res_params = \<lparr>n_agents = n_agents params,
                             group_imbalance = group_imbalance params,
                             seed = seed params,
                             t_user = t_user params,
                             a_user = a_user params,
                             r_user = r_user params,
                             t_hr = t_hr params,
                             b_hr = b_hr params,
                             param_hiring_threshold = param_hiring_threshold params,
                             param_hiring_capacity = param_hiring_capacity params,
                             lr = lr params,
                             diversity_reg = diversity_reg params,
                             param_feedback_weight = param_feedback_weight params,
                             iterations = iterations params\<rparr>\<rparr>)"

subsection \<open>The vectors of one round, named\<close>

text \<open>
  The local values that \<open>iteration\<close> computes from the state a round starts in:
  the per-agent outcomes, the shown and chosen levels and the applicant records; and the
  unrounded exposure rate of a group as \<open>compute_iteration_metrics\<close> forms it.
\<close>

definition round_outs :: "'g prng \<Rightarrow> 'g sim_state \<Rightarrow> (int \<times> int \<times> applicant_record) list" where
  "round_outs G s = fst (agent_loop G (st_platform s) (st_hr s) 0 (st_agents s) (st_rng s))"

definition round_shown :: "'g prng \<Rightarrow> 'g sim_state \<Rightarrow> int list" where
  "round_shown G s = map fst (round_outs G s)"

definition round_chosen :: "'g prng \<Rightarrow> 'g sim_state \<Rightarrow> int list" where
  "round_chosen G s = map (\<lambda>out. fst (snd out)) (round_outs G s)"

definition round_records :: "'g prng \<Rightarrow> 'g sim_state \<Rightarrow> applicant_record list" where
  "round_records G s = map (\<lambda>out. snd (snd out)) (round_outs G s)"

definition raw_exposure :: "grp \<Rightarrow> grp list \<Rightarrow> int list \<Rightarrow> real" where
  "raw_exposure g groups shown_levels =
     safe_div (of_int (sum_group g groups shown_levels)) (of_int (count_group g groups)) 0"

definition round_exposure :: "'g prng \<Rightarrow> 'g sim_state \<Rightarrow> grp \<Rightarrow> real" where
  "round_exposure G s g = raw_exposure g (map group (st_agents s)) (round_shown G s)"

text \<open>
  A set \<open>A\<close> of positions is the accepted set of the round that takes \<open>s\<close> to \<open>s'\<close>
  when it is the set the round computes from its applicant records, the platform of
  \<open>s'\<close> is the feedback update computed with \<open>A\<close>, and the snapshot that \<open>s'\<close> has
  at the end of its history is the one computed with the agents at the positions in \<open>A\<close>
  flagged as accepted.
\<close>

definition accepted_in_round :: "'g prng \<Rightarrow> 'g sim_state \<Rightarrow> 'g sim_state \<Rightarrow> nat set \<Rightarrow> bool" where
  "accepted_in_round G s s' A =
     (accepted_set_of (st_hr s) (round_records G s) = Inr A
      \<and> st_platform s' = platform_feedback (round_records G s) A (st_platform s)
      \<and> st_history s' = st_history s @ [last (st_history s')]
      \<and> compute_iteration_metrics (map group (st_agents s)) (round_shown G s)
            (round_chosen G s) (map (\<lambda>i. i \<in> A) [0..<length (st_agents s)])
            (p_high (st_platform s') GroupA) (p_high (st_platform s') GroupB)
            (st_prev_disparity s)
          = Inr (last (st_history s')))"

subsection \<open>State predicates used in the statements\<close>

definition in_unit :: "real \<Rightarrow> bool" where
  "in_unit x = (0 \<le> x \<and> x \<le> 1)"

definition state_in_unit :: "'g sim_state \<Rightarrow> bool" where
  "state_in_unit s =
     (in_unit (p_high (st_platform s) GroupA) \<and> in_unit (p_high (st_platform s) GroupB)
      \<and> list_all (\<lambda>a. in_unit (preference_for_high a)) (st_agents s))"

text \<open>
  Two states agree on every field that is not \<open>p_high\<close> or \<open>preference_for_high\<close>:
  the HR department, the three platform parameters, and agent by agent the group, the
  skill and the three behavioural parameters.
\<close>

definition same_fixed_fields :: "'g sim_state \<Rightarrow> 'g sim_state \<Rightarrow> bool" where
  "same_fixed_fields s s' =
     (st_hr s' = st_hr s
      \<and> learning_rate (st_platform s') = learning_rate (st_platform s)
      \<and> diversity_regularization (st_platform s') = diversity_regularization (st_platform s)
      \<and> feedback_weight (st_platform s') = feedback_weight (st_platform s)
      \<and> length (st_agents s') = length (st_agents s)
      \<and> map group (st_agents s') = map group (st_agents s)
      \<and> map skill (st_agents s') = map skill (st_agents s)
      \<and> map trust_in_algorithm (st_agents s') = map trust_in_algorithm (st_agents s)
      \<and> map adaptation_speed (st_agents s') = map adaptation_speed (st_agents s)
      \<and> map risk_tolerance (st_agents s') = map risk_tolerance (st_agents s))"

text \<open>
  The product under \<^verbatim>\<open>int\<close> is finite: in a state, for the round started there; for a
  parameter set, for every round of the run (the population has \<open>max(0, n_agents)\<close>
  agents).
\<close>

definition round_cap_ok :: "'g sim_state \<Rightarrow> bool" where
  "round_cap_ok s =
     (\<not> is_inf (fmul (hiring_capacity (st_hr s)) (of_nat (length (st_agents s)))))"

definition run_cap_ok :: "SimParams \<Rightarrow> bool" where
  "run_cap_ok params =
     (\<not> is_inf (fmul (param_hiring_capacity params) (of_nat (nat (n_agents params)))))"

subsection \<open>Hiring, in the words of the specification\<close>

text \<open>
  Agents are named by their position in the population. An agent is eligible when its
  final score reaches the threshold, and the cap is \<open>max(1, floor(hiring_capacity * N))\<close>,
  the product being the product of doubles.
\<close>

definition eligible_agents :: "HRDepartment \<Rightarrow> Agent list \<Rightarrow> nat set" where
  "eligible_agents hr agents =
     set (filter (\<lambda>i. hiring_threshold hr \<le> final_score_of hr (agents ! i))
            [0..<length agents])"

definition capacity_cap :: "HRDepartment \<Rightarrow> nat \<Rightarrow> int" where
  "capacity_cap hr n = max 1 \<lfloor>fmul (hiring_capacity hr) (of_nat n)\<rfloor>"

text \<open>
  A set \<open>A\<close> of accepted agents respects the capacity when every accepted agent is
  eligible, at most the cap are accepted, and all eligible agents and no others are
  accepted whenever the eligible agents number at most the cap.
\<close>

definition respects_capacity :: "HRDepartment \<Rightarrow> Agent list \<Rightarrow> nat set \<Rightarrow> bool" where
  "respects_capacity hr agents A =
     (A \<subseteq> eligible_agents hr agents
      \<and> int (card A) \<le> capacity_cap hr (length agents)
      \<and> (int (card (eligible_agents hr agents)) \<le> capacity_cap hr (length agents)
            \<longrightarrow> A = eligible_agents hr agents))"

text \<open>
  The ranking: agent \<open>j\<close> is ranked ahead of agent \<open>i\<close> when its final score is
  higher, or the scores are equal and \<open>j\<close> comes earlier in the population. The rank of
  an eligible agent is the number of eligible agents ranked ahead of it, and the top of
  the ranking is the set of eligible agents whose rank is below the cap.
\<close>

definition ranked_ahead :: "HRDepartment \<Rightarrow> Agent list \<Rightarrow> nat \<Rightarrow> nat \<Rightarrow> bool" where
  "ranked_ahead hr agents j i =
     (final_score_of hr (agents ! i) < final_score_of hr (agents ! j)
      \<or> (final_score_of hr (agents ! j) = final_score_of hr (agents ! i) \<and> j < i))"

definition rank_of :: "HRDepartment \<Rightarrow> Agent list \<Rightarrow> nat \<Rightarrow> nat" where
  "rank_of hr agents i =
     card (set (filter (\<lambda>j. ranked_ahead hr agents j i)
                  (filter (\<lambda>j. hiring_threshold hr \<le> final_score_of hr (agents ! j))
                     [0..<length agents])))"

definition top_ranked_eligible :: "HRDepartment \<Rightarrow> Agent list \<Rightarrow> nat set" where
  "top_ranked_eligible hr agents =
     set (filter (\<lambda>i. int (rank_of hr agents i) < capacity_cap hr (length agents))
            (filter (\<lambda>i. hiring_threshold hr \<le> final_score_of hr (agents ! i))
               [0..<length agents]))"

subsection \<open>Generators that produce the same draws\<close>

text \<open>
  Two generators, possibly with different internal states, produce the same sequence of
  draws from a pair of states when a relation \<open>R\<close> holds of the pair and is kept by
  every draw: from related states, a uniform draw returns the same value on both sides and
  related successor states, and so does a Gaussian draw for every mean and deviation.
  Two simulation states are the same up to \<open>R\<close> when their generator states are
  related and all their other fields are equal.
\<close>

definition same_draws :: "('a \<Rightarrow> 'b \<Rightarrow> bool) \<Rightarrow> 'a prng \<Rightarrow> 'b prng \<Rightarrow> bool" where
  "same_draws R G1 G2 =
     ((\<forall>a b. R a b \<longrightarrow>
          fst (rng_random G1 a) = fst (rng_random G2 b)
          \<and> R (snd (rng_random G1 a)) (snd (rng_random G2 b)))
      \<and> (\<forall>mu sigma a b. R a b \<longrightarrow>
          fst (rng_gauss G1 mu sigma a) = fst (rng_gauss G2 mu sigma b)
          \<and> R (snd (rng_gauss G1 mu sigma a)) (snd (rng_gauss G2 mu sigma b))))"

definition same_state :: "('a \<Rightarrow> 'b \<Rightarrow> bool) \<Rightarrow> 'a sim_state \<Rightarrow> 'b sim_state \<Rightarrow> bool" where
  "same_state R s1 s2 =
     (st_agents s1 = st_agents s2 \<and> st_hr s1 = st_hr s2 \<and> st_platform s1 = st_platform s2
      \<and> R (st_rng s1) (st_rng s2)
      \<and> st_prev_disparity s1 = st_prev_disparity s2 \<and> st_history s1 = st_history s2)"

subsection \<open>A small generator and parameter sets for concrete runs\<close>

text \<open>
  A counter-based source of draws, used where a statement is instantiated on a concrete
  run: the uniform draws cycle through \<open>0, 1/4, 1/2, 3/4\<close> and the Gaussian draws through
  \<open>mu - 1/4, mu, mu + 1/4\<close>, whatever the deviation asked for. With the parameters of
  \<open>demo_params\<close>, all of them doubles with a few binary places, every value of the run
  up to the metrics is a double computed without rounding error.
\<close>

definition demo_rng :: "nat prng" where
  "demo_rng =
     \<lparr>rng_seed = (\<lambda>s. nat \<bar>s\<bar>),
      rng_random = (\<lambda>n. (of_nat (n mod 4) / 4, Suc n)),
      rng_gauss = (\<lambda>mu sigma n. (mu + (of_nat (n mod 3) - 1) / 4, Suc n))\<rparr>"

text \<open>The same source of draws with an integer counter as its state.\<close>

definition demo_rng_int :: "int prng" where
  "demo_rng_int =
     \<lparr>rng_seed = (\<lambda>s. \<bar>s\<bar>),
      rng_random = (\<lambda>n. (of_int (n mod 4) / 4, n + 1)),
      rng_gauss = (\<lambda>mu sigma n. (mu + (of_int (n mod 3) - 1) / 4, n + 1))\<rparr>"

definition demo_params :: SimParams where
  "demo_params =
     \<lparr>n_agents = 3, group_imbalance = 1 / 2, seed = 42,
      t_user = 3 / 4, a_user = 1 / 4, r_user = 1 / 4,
      t_hr = 1 / 2, b_hr = 1 / 8, param_hiring_threshold = 15 / 32,
      param_hiring_capacity = 1 / 4,
      lr = 1 / 4, diversity_reg = 1 / 8, param_feedback_weight = 1 / 2,
      iterations = 2\<rparr>"


text \<open>The HR department of the default parameters of \<^verbatim>\<open>SimParams\<close>.\<close>

definition default_hr :: HRDepartment where
  "default_hr =
     \<lparr>trust_in_model = double_round 0.6, institutional_bias = double_round 0.15,
      hiring_threshold = double_round 0.45, hiring_capacity = double_round 0.3\<rparr>"


section \<open>Properties\<close>

subsection \<open>Rounding to the nearest double\<close>

lemma floor_log2_eq:
  assumes "2 powi e \<le> \<bar>x\<bar>" and "\<bar>x\<bar> < 2 powi (e + 1)"
  shows "\<lfloor>log 2 \<bar>x\<bar>\<rfloor> = e"
proof -
  have "(0::real) < 2 powi e" by simp
  with assms(1) have pos: "0 < \<bar>x\<bar>" by linarith
  have p1: "(2::real) powr (of_int e) = 2 powi e"
    by (rule powr_real_of_int') simp_all
  have p2: "(2::real) powr (of_int (e + 1)) = 2 powi (e + 1)"
    by (rule powr_real_of_int') simp_all
  have "of_int e \<le> log 2 \<bar>x\<bar>"
    using pos assms(1) p1 by (simp add: le_log_iff)
  moreover have "log 2 \<bar>x\<bar> < of_int (e + 1)"
    using pos assms(2) p2 log_less_iff [of 2 "\<bar>x\<bar>" "of_int (e + 1)"] by simp
  ultimately show ?thesis by linarith
qed

lemma floor_log2_bounds:
  assumes "x \<noteq> 0"
  shows "2 powi \<lfloor>log 2 \<bar>x\<bar>\<rfloor> \<le> \<bar>x\<bar>" and "\<bar>x\<bar> < 2 powi (\<lfloor>log 2 \<bar>x\<bar>\<rfloor> + 1)"
proof -
  let ?e = "\<lfloor>log 2 \<bar>x\<bar>\<rfloor>"
  have pos: "0 < \<bar>x\<bar>" using assms by simp
  have p1: "(2::real) powr (of_int ?e) = 2 powi ?e"
    by (rule powr_real_of_int') simp_all
  have p2: "(2::real) powr (of_int (?e + 1)) = 2 powi (?e + 1)"
    by (rule powr_real_of_int') simp_all
  have "of_int ?e \<le> log 2 \<bar>x\<bar>" by simp
  then have "(2::real) powr (of_int ?e) \<le> \<bar>x\<bar>"
    using pos le_log_iff [of 2 "\<bar>x\<bar>" "of_int ?e"] by simp
  then show "2 powi ?e \<le> \<bar>x\<bar>" using p1 by simp
  have "log 2 \<bar>x\<bar> < of_int (?e + 1)" by linarith
  then have "\<bar>x\<bar> < (2::real) powr (of_int (?e + 1))"
    using pos log_less_iff [of 2 "\<bar>x\<bar>" "of_int (?e + 1)"] by simp
  then show "\<bar>x\<bar> < 2 powi (?e + 1)" using p2 by simp
qed

lemma ulp_exponent_eq:
  assumes "2 powi e \<le> \<bar>x\<bar>" and "\<bar>x\<bar> < 2 powi (e + 1)"
  shows "ulp_exponent x = max e (- 1022) - 52"
  by (simp add: ulp_exponent_def floor_log2_eq [OF assms])

text \<open>
  The rounding of a real whose binary exponent \<open>e\<close> is known. All the concrete roundings
  below are computed with this equation.
\<close>

lemma double_round_eval:
  assumes "2 powi e \<le> \<bar>x\<bar>" and "\<bar>x\<bar> < 2 powi (e + 1)"
  shows "double_round x =
     (let u = 2 powi (max e (- 1022) - 52);
          r = of_int (round_half_even (x / u)) * u
      in if 2 ^ 1024 \<le> r then 2 ^ 1024
         else if r \<le> - (2 ^ 1024) then - (2 ^ 1024)
         else r)"
proof -
  have "(0::real) < 2 powi e" by simp
  with assms(1) have "0 < \<bar>x\<bar>" by linarith
  then have "x \<noteq> 0" by simp
  then show ?thesis
    by (simp add: double_round_def ulp_exponent_eq [OF assms])
qed

lemma round_half_even_of_int: "round_half_even (of_int k) = k"
  by (simp add: round_half_even_def)

lemma round_half_even_error: "\<bar>of_int (round_half_even y) - y\<bar> \<le> 1 / 2"
  unfolding round_half_even_def Let_def
  by (auto simp: abs_le_iff)

text \<open>A real with at most 53 significant bits and no bit below \<open>2\<^sup>-\<^sup>1\<^sup>0\<^sup>7\<^sup>4\<close> is a double.\<close>

lemma double_round_dyadic:
  assumes m: "\<bar>m\<bar> < 2 ^ 53" and k: "k \<le> 1074"
  shows "double_round (of_int m / 2 ^ k) = of_int m / 2 ^ k"
proof (cases "m = 0")
  case True
  then show ?thesis by (simp add: double_round_def)
next
  case False
  define x :: real where "x = of_int m / 2 ^ k"
  have x0: "x \<noteq> 0" using False by (simp add: x_def)
  define E where "E = \<lfloor>log 2 \<bar>x\<bar>\<rfloor>"
  have lo: "2 powi E \<le> \<bar>x\<bar>" and hi: "\<bar>x\<bar> < 2 powi (E + 1)"
    unfolding E_def using floor_log2_bounds [OF x0] by simp_all
  have xpowi: "x = of_int m * 2 powi (- int k)"
    by (simp add: x_def power_int_minus field_simps)
  have mb: "\<bar>real_of_int m\<bar> < 2 ^ 53"
    using m by (metis of_int_abs of_int_less_numeral_power_cancel_iff)
  then have "\<bar>x\<bar> < 2 ^ 53 * 2 powi (- int k)"
    unfolding xpowi by (simp add: abs_mult)
  also have "\<dots> = 2 powi (53 - int k)"
    by (simp add: power_int_diff power_int_minus field_simps)
  finally have lt: "2 powi E < (2::real) powi (53 - int k)"
    using lo by linarith
  have Ek: "E < 53 - int k"
  proof (rule ccontr)
    assume "\<not> E < 53 - int k"
    then have "(2::real) powi (53 - int k) \<le> 2 powi E"
      by (intro power_int_increasing) simp_all
    with lt show False by linarith
  qed
  define j where "j = max E (- 1022) - 52"
  have jk: "j + int k \<le> 0"
    using Ek k by (simp add: j_def max_def)
  define n where "n = nat (- (j + int k))"
  have nj: "int n = - j - int k" using jk by (simp add: n_def)
  have "x / 2 powi j = of_int m * (2 powi (- int k) / 2 powi j)"
    by (simp add: xpowi)
  also have "2 powi (- int k) / (2::real) powi j = 2 powi (- int k - j)"
    by (simp add: power_int_diff)
  also have "- int k - j = int n" using nj by simp
  also have "(2::real) powi int n = of_int (2 ^ n)"
    by simp
  finally have q: "x / 2 powi j = of_int (m * 2 ^ n)"
    by simp
  have "of_int (round_half_even (x / 2 powi j)) * 2 powi j = x / 2 powi j * 2 powi j"
    unfolding q round_half_even_of_int ..
  also have "\<dots> = x" by simp
  finally have r: "of_int (round_half_even (x / 2 powi j)) * 2 powi j = x" .
  have "\<bar>x\<bar> < 2 ^ 53"
  proof -
    have "\<bar>x\<bar> \<le> \<bar>real_of_int m\<bar>"
      by (simp add: x_def abs_divide field_simps mult_le_cancel_left1)
    then show ?thesis using mb by linarith
  qed
  moreover have "(2::real) ^ 53 < 2 ^ 1024" by simp
  ultimately have b: "\<not> 2 ^ 1024 \<le> x" "\<not> x \<le> - (2 ^ 1024)"
    by linarith+
  have "double_round x = x"
    using double_round_eval [OF lo hi] r b unfolding j_def [symmetric] Let_def by simp
  then show ?thesis by (simp add: x_def)
qed

text \<open>Rounding moves a real by at most half a spacing, and saturation only shrinks it.\<close>

lemma double_round_abs_le: "\<bar>double_round x\<bar> \<le> 2 * \<bar>x\<bar> + 1"
proof (cases "x = 0")
  case True
  then show ?thesis by (simp add: double_round_def)
next
  case False
  define E where "E = \<lfloor>log 2 \<bar>x\<bar>\<rfloor>"
  have lo: "2 powi E \<le> \<bar>x\<bar>" and hi: "\<bar>x\<bar> < 2 powi (E + 1)"
    unfolding E_def using floor_log2_bounds [OF False] by simp_all
  define j where "j = max E (- 1022) - 52"
  define u :: real where "u = 2 powi j"
  define r where "r = of_int (round_half_even (x / u)) * u"
  have u0: "0 < u" by (simp add: u_def)
  have ule: "u \<le> \<bar>x\<bar> + 1"
  proof (cases "- 1022 \<le> E")
    case True
    then have "j \<le> E" by (simp add: j_def)
    then have "u \<le> 2 powi E"
      unfolding u_def by (intro power_int_increasing) simp_all
    with lo show ?thesis by linarith
  next
    case False
    then have "j \<le> 0" by (simp add: j_def)
    then have "u \<le> 2 powi 0"
      unfolding u_def by (intro power_int_increasing) simp_all
    then show ?thesis by simp
  qed
  have "r - x = (of_int (round_half_even (x / u)) - x / u) * u"
    using u0 by (simp add: r_def algebra_simps)
  then have "\<bar>r - x\<bar> = \<bar>of_int (round_half_even (x / u)) - x / u\<bar> * u"
    using u0 by (simp add: abs_mult)
  also have "\<dots> \<le> 1 / 2 * u"
    using round_half_even_error [of "x / u"] u0 by (intro mult_right_mono) simp_all
  finally have "\<bar>r - x\<bar> \<le> u / 2" by simp
  then have rb: "\<bar>r\<bar> \<le> 2 * \<bar>x\<bar> + 1"
    using ule by linarith
  have "double_round x =
          (if 2 ^ 1024 \<le> r then 2 ^ 1024 else if r \<le> - (2 ^ 1024) then - (2 ^ 1024) else r)"
    using double_round_eval [OF lo hi] unfolding j_def [symmetric] u_def [symmetric] Let_def
      r_def [symmetric] .
  then have "\<bar>double_round x\<bar> \<le> \<bar>r\<bar>"
    by (auto simp: abs_if split: if_splits)
  with rb show ?thesis by linarith
qed

lemma double_round_finite:
  assumes "\<bar>x\<bar> \<le> 2 ^ 1000"
  shows "\<not> is_inf (double_round x)"
proof -
  have "\<bar>double_round x\<bar> \<le> 2 * \<bar>x\<bar> + 1" by (rule double_round_abs_le)
  also have "\<dots> \<le> 2 * 2 ^ 1000 + 1" using assms by simp
  also have "\<dots> < (2::real) ^ 1024" by simp
  finally show ?thesis by (simp add: is_inf_def)
qed

text \<open>
  Doubles with few binary places, in the form in which numerals are written: they round
  to themselves.
\<close>

lemma double_round_zero: "double_round 0 = 0"
  by (simp add: double_round_def)

lemma double_round_one: "double_round 1 = 1"
  using double_round_dyadic [of 1 0] by simp

lemma double_round_numeral:
  "(numeral a :: int) < 2 ^ 53 \<Longrightarrow> double_round (numeral a) = numeral a"
  using double_round_dyadic [of "numeral a" 0] by simp

lemma double_round_numeral_div:
  "(numeral a :: int) < 2 ^ 53 \<Longrightarrow> double_round (numeral a / 2) = numeral a / 2"
  "(numeral a :: int) < 2 ^ 53 \<Longrightarrow> double_round (numeral a / 4) = numeral a / 4"
  "(numeral a :: int) < 2 ^ 53 \<Longrightarrow> double_round (numeral a / 8) = numeral a / 8"
  "(numeral a :: int) < 2 ^ 53 \<Longrightarrow> double_round (numeral a / 16) = numeral a / 16"
  "(numeral a :: int) < 2 ^ 53 \<Longrightarrow> double_round (numeral a / 32) = numeral a / 32"
  "(numeral a :: int) < 2 ^ 53 \<Longrightarrow> double_round (numeral a / 64) = numeral a / 64"
  "(numeral a :: int) < 2 ^ 53 \<Longrightarrow> double_round (numeral a / 128) = numeral a / 128"
  "(numeral a :: int) < 2 ^ 53 \<Longrightarrow> double_round (numeral a / 256) = numeral a / 256"
  using double_round_dyadic [of "numeral a" 1] double_round_dyadic [of "numeral a" 2]
    double_round_dyadic [of "numeral a" 3] double_round_dyadic [of "numeral a" 4]
    double_round_dyadic [of "numeral a" 5] double_round_dyadic [of "numeral a" 6]
    double_round_dyadic [of "numeral a" 7] double_round_dyadic [of "numeral a" 8]
  by simp_all

lemma double_round_one_div:
  "double_round (1 / 2) = 1 / 2"
  "double_round (1 / 4) = 1 / 4"
  "double_round (1 / 8) = 1 / 8"
  "double_round (1 / 16) = 1 / 16"
  "double_round (1 / 32) = 1 / 32"
  "double_round (1 / 64) = 1 / 64"
  "double_round (1 / 128) = 1 / 128"
  "double_round (1 / 256) = 1 / 256"
  using double_round_dyadic [of 1 1] double_round_dyadic [of 1 2]
    double_round_dyadic [of 1 3] double_round_dyadic [of 1 4]
    double_round_dyadic [of 1 5] double_round_dyadic [of 1 6]
    double_round_dyadic [of 1 7] double_round_dyadic [of 1 8]
  by simp_all

lemmas double_round_simple =
  double_round_zero double_round_one double_round_numeral double_round_numeral_div
  double_round_one_div

lemma is_inf_small: "\<bar>x\<bar> \<le> 2 ^ 1000 \<Longrightarrow> \<not> is_inf x"
proof -
  assume "\<bar>x\<bar> \<le> 2 ^ 1000"
  moreover have "(2::real) ^ 1000 < 2 ^ 1024" by simp
  ultimately show ?thesis by (simp add: is_inf_def)
qed

lemma float_ops_simple:
  "\<bar>x\<bar> \<le> 2 ^ 1000 \<Longrightarrow> \<bar>y\<bar> \<le> 2 ^ 1000 \<Longrightarrow> fadd x y = double_round (x + y)"
  "\<bar>x\<bar> \<le> 2 ^ 1000 \<Longrightarrow> \<bar>y\<bar> \<le> 2 ^ 1000 \<Longrightarrow> fsub x y = double_round (x - y)"
  by (simp_all add: fadd_def fsub_def is_inf_small)

text \<open>The capacity product is finite over the documented range of the capacity.\<close>

lemma capacity_product_finite:
  assumes "0 \<le> c" and "c \<le> 1" and "n \<le> 2 ^ 1000"
  shows "\<not> is_inf (fmul c (of_nat n))"
proof -
  have "real n \<le> 2 ^ 1000"
    using assms(3) by (metis of_nat_le_iff of_nat_numeral of_nat_power)
  moreover have "c * real n \<le> 1 * real n"
    using assms by (intro mult_right_mono) simp_all
  moreover have "0 \<le> c * real n" using assms by simp
  ultimately have "\<bar>c * real n\<bar> \<le> 2 ^ 1000" by simp
  then show ?thesis
    unfolding fmul_def by (rule double_round_finite)
qed

subsection \<open>Numeric utilities\<close>

text \<open>
  C7, as amended. Whenever \<open>lo \<le> hi\<close>, \<open>clamp x lo hi\<close> lies in the interval
  \<open>[lo, hi]\<close>; with the default bounds, \<open>clamp 1.5 = 1\<close> and \<open>clamp (-0.2) = 0\<close>.
\<close>

theorem clamp_within_bounds:
  assumes "lo \<le> hi"
  shows "lo \<le> clamp x lo hi \<and> clamp x lo hi \<le> hi
         \<and> clamp 1.5 0 1 = 1 \<and> clamp (- 0.2) 0 1 = 0"
  using assms by (simp add: clamp_def)

theorem clamp_within_bounds_witness:
  "(0::real) \<le> 1 \<and> 0 \<le> clamp 7 0 1 \<and> clamp 7 0 1 \<le> 1 \<and> clamp 7 0 1 = 1"
  using clamp_within_bounds [of 0 1 7] by (simp add: clamp_def)

text \<open>
  C7 as stated has no precondition on the bounds. With \<open>lo = 1\<close> and \<open>hi = 0\<close> the
  result \<open>max 1 (min 0 0) = 1\<close> is above \<open>hi\<close>.
\<close>

theorem clamp_inverted_bounds_counterexample:
  "\<not> (1 \<le> clamp 0 1 0 \<and> clamp 0 1 0 \<le> 0)"
  by (simp add: clamp_def)

text \<open>
  C10. \<open>shannon_entropy\<close> returns a value on every real input; it returns exactly \<open>0\<close>
  whenever \<open>p \<le> 0\<close> or \<open>p \<ge> 1\<close>; and on the remaining inputs both logarithm calls
  receive a strictly positive argument, so the \<open>ValueError\<close> branch is never taken.
\<close>

theorem shannon_entropy_total:
  "(p \<le> 0 \<or> 1 \<le> p \<longrightarrow> shannon_entropy p = Inr 0)
   \<and> (\<exists>v. shannon_entropy p = Inr v)
   \<and> (0 < p \<and> p < 1 \<longrightarrow> log2 p = Inr (log 2 p) \<and> log2 (1 - p) = Inr (log 2 (1 - p)))"
  by (simp add: shannon_entropy_def log2_def)

theorem shannon_entropy_total_witness:
  "shannon_entropy (- 3) = Inr 0 \<and> shannon_entropy 2 = Inr 0
   \<and> (\<exists>v. shannon_entropy (1 / 2) = Inr v) \<and> log2 (1 / 2) = Inr (log 2 (1 / 2))"
  using shannon_entropy_total [of "- 3"] shannon_entropy_total [of 2]
    shannon_entropy_total [of "1 / 2"]
  by simp

subsection \<open>The applicant records of a round\<close>

lemma agent_loop_length: "length (fst (agent_loop G pl hr i as r)) = length as"
proof (induction as arbitrary: i r)
  case Nil
  show ?case by simp
next
  case (Cons a as)
  obtain out r1 where st: "agent_step G pl hr i a r = (out, r1)"
    by (cases "agent_step G pl hr i a r")
  obtain outs r2 where lp: "agent_loop G pl hr (Suc i) as r1 = (outs, r2)"
    by (cases "agent_loop G pl hr (Suc i) as r1")
  have "length outs = length as"
    using Cons.IH [of "Suc i" r1] lp by simp
  then show ?case
    by (simp add: st lp)
qed

lemma round_shown_length: "length (round_shown G s) = length (st_agents s)"
  by (simp add: round_shown_def round_outs_def agent_loop_length)

lemma agent_step_record:
  "r_idx (snd (snd (fst (agent_step G pl hr i a r)))) = i"
  "r_final_score (snd (snd (fst (agent_step G pl hr i a r)))) = final_score_of hr a"
  "r_meets_threshold (snd (snd (fst (agent_step G pl hr i a r))))
     = (hiring_threshold hr \<le> final_score_of hr a)"
  by (simp_all add: agent_step_def Let_def split: prod.splits)

lemma agent_loop_nth:
  assumes "k < length as"
  shows "r_idx (snd (snd (fst (agent_loop G pl hr i as r) ! k))) = i + k
       \<and> r_final_score (snd (snd (fst (agent_loop G pl hr i as r) ! k)))
           = final_score_of hr (as ! k)
       \<and> r_meets_threshold (snd (snd (fst (agent_loop G pl hr i as r) ! k)))
           = (hiring_threshold hr \<le> final_score_of hr (as ! k))"
  using assms
proof (induction as arbitrary: i r k)
  case Nil
  then show ?case by simp
next
  case (Cons a as)
  obtain out r1 where st: "agent_step G pl hr i a r = (out, r1)"
    by (cases "agent_step G pl hr i a r")
  obtain outs r2 where lp: "agent_loop G pl hr (Suc i) as r1 = (outs, r2)"
    by (cases "agent_loop G pl hr (Suc i) as r1")
  have e: "fst (agent_loop G pl hr i (a # as) r) = out # outs"
    by (simp add: st lp)
  show ?case
  proof (cases k)
    case 0
    have "r_idx (snd (snd out)) = i"
      "r_final_score (snd (snd out)) = final_score_of hr a"
      "r_meets_threshold (snd (snd out)) = (hiring_threshold hr \<le> final_score_of hr a)"
      using agent_step_record [of G pl hr i a r] unfolding st by simp_all
    then show ?thesis
      unfolding e using 0 by simp
  next
    case (Suc j)
    then have j: "j < length as" using Cons.prems by simp
    have "r_idx (snd (snd (outs ! j))) = Suc i + j
       \<and> r_final_score (snd (snd (outs ! j))) = final_score_of hr (as ! j)
       \<and> r_meets_threshold (snd (snd (outs ! j)))
           = (hiring_threshold hr \<le> final_score_of hr (as ! j))"
      using Cons.IH [OF j, of "Suc i" r1] unfolding lp by simp
    then show ?thesis
      unfolding e using Suc by simp
  qed
qed

lemma round_records_length: "length (round_records G s) = length (st_agents s)"
  by (simp add: round_records_def round_outs_def agent_loop_length)

lemma round_records_nth:
  assumes "k < length (st_agents s)"
  shows "r_idx (round_records G s ! k) = k"
    and "r_final_score (round_records G s ! k) = final_score_of (st_hr s) (st_agents s ! k)"
    and "r_meets_threshold (round_records G s ! k)
           = (hiring_threshold (st_hr s) \<le> final_score_of (st_hr s) (st_agents s ! k))"
  using agent_loop_nth [OF assms, of G "st_platform s" "st_hr s" 0 "st_rng s"] assms
  by (simp_all add: round_records_def round_outs_def agent_loop_length)

text \<open>The accepted flags, read off the records, are the flags of the positions.\<close>

lemma round_flags_positions:
  "map (\<lambda>r. r_idx r \<in> A) (round_records G s) = map (\<lambda>i. i \<in> A) [0..<length (st_agents s)]"
  by (rule nth_equalityI) (simp_all add: round_records_length round_records_nth)

subsection \<open>A round returns unless the capacity product overflows\<close>

lemma max_accept_cases:
  "max_accept_of hr recs =
     (if is_inf (fmul (hiring_capacity hr) (of_nat (length recs))) then Inl OverflowError
      else Inr (capacity_cap hr (length recs)))"
  by (auto simp: max_accept_of_def py_int_def capacity_cap_def max_def)

lemma accepted_set_cases:
  "accepted_set_of hr recs =
     (if is_inf (fmul (hiring_capacity hr) (of_nat (length recs))) then Inl OverflowError
      else Inr (set (map r_idx (take (nat (capacity_cap hr (length recs)))
                  (sort_key (\<lambda>r. - r_final_score r) (filter r_meets_threshold recs))))))"
  by (simp add: accepted_set_of_def max_accept_cases Let_def)

lemma round_accepted_cases:
  "accepted_set_of (st_hr s) (round_records G s) =
     (if round_cap_ok s
      then Inr (set (map r_idx (take (nat (capacity_cap (st_hr s) (length (st_agents s))))
                  (sort_key (\<lambda>r. - r_final_score r)
                     (filter r_meets_threshold (round_records G s))))))
      else Inl OverflowError)"
  by (simp add: accepted_set_cases round_cap_ok_def round_records_length)

lemma shannon_entropy_returns: "\<exists>v. shannon_entropy p = Inr v"
  by (simp add: shannon_entropy_def log2_def)

lemma metrics_returns:
  "\<exists>m. compute_iteration_metrics gs sh ch ac pA pB prev = Inr m"
proof -
  obtain a where a: "shannon_entropy (safe_div (of_int (sum_group GroupA gs sh))
      (of_int (count_group GroupA gs)) 0) = Inr a"
    using shannon_entropy_returns by blast
  obtain b where b: "shannon_entropy (safe_div (of_int (sum_group GroupB gs sh))
      (of_int (count_group GroupB gs)) 0) = Inr b"
    using shannon_entropy_returns by blast
  show ?thesis
    by (simp add: compute_iteration_metrics_def Let_def a b)
qed

text \<open>One round, unfolded: what it returns when the accepted set is computed.\<close>

lemma iteration_result:
  assumes A: "accepted_set_of (st_hr s) (round_records G s) = Inr A"
  obtains m where
    "compute_iteration_metrics (map group (st_agents s)) (round_shown G s) (round_chosen G s)
             (map (\<lambda>i. i \<in> A) [0..<length (st_agents s)])
             (p_high (platform_feedback (round_records G s) A (st_platform s)) GroupA)
             (p_high (platform_feedback (round_records G s) A (st_platform s)) GroupB)
             (st_prev_disparity s) = Inr m"
    "iteration G s = Inr (s\<lparr>st_agents := map2 internalize (st_agents s) (round_shown G s),
                 st_platform := platform_feedback (round_records G s) A (st_platform s),
                 st_rng := snd (agent_loop G (st_platform s) (st_hr s) 0 (st_agents s) (st_rng s)),
                 st_prev_disparity := Some (disparity_exposure m),
                 st_history := st_history s @ [m]\<rparr>)"
proof -
  obtain outs r' where
    ol: "agent_loop G (st_platform s) (st_hr s) 0 (st_agents s) (st_rng s) = (outs, r')"
    by (cases "agent_loop G (st_platform s) (st_hr s) 0 (st_agents s) (st_rng s)")
  have v: "round_shown G s = map fst outs" "round_chosen G s = map (\<lambda>out. fst (snd out)) outs"
    "round_records G s = map (\<lambda>out. snd (snd out)) outs"
    by (simp_all add: round_shown_def round_chosen_def round_records_def round_outs_def ol)
  have A': "accepted_set_of (st_hr s) (map (\<lambda>out. snd (snd out)) outs) = Inr A"
    using A unfolding v .
  have fl: "map (\<lambda>r. r_idx r \<in> A) (map (\<lambda>out. snd (snd out)) outs)
              = map (\<lambda>i. i \<in> A) [0..<length (st_agents s)]"
    using round_flags_positions [of A G s] unfolding v .
  obtain m where m: "compute_iteration_metrics (map group (st_agents s)) (round_shown G s)
             (round_chosen G s) (map (\<lambda>i. i \<in> A) [0..<length (st_agents s)])
             (p_high (platform_feedback (round_records G s) A (st_platform s)) GroupA)
             (p_high (platform_feedback (round_records G s) A (st_platform s)) GroupB)
             (st_prev_disparity s) = Inr m"
    using metrics_returns by blast
  have "iteration G s = Inr (s\<lparr>st_agents := map2 internalize (st_agents s) (round_shown G s),
                 st_platform := platform_feedback (round_records G s) A (st_platform s),
                 st_rng := snd (agent_loop G (st_platform s) (st_hr s) 0 (st_agents s) (st_rng s)),
                 st_prev_disparity := Some (disparity_exposure m),
                 st_history := st_history s @ [m]\<rparr>)"
    using m unfolding v by (simp add: iteration_def ol Let_def A' fl del: map_map)
  with m show ?thesis by (rule that)
qed

lemma iteration_error:
  assumes "accepted_set_of (st_hr s) (round_records G s) = Inl e"
  shows "iteration G s = Inl e"
proof -
  obtain outs r' where
    ol: "agent_loop G (st_platform s) (st_hr s) 0 (st_agents s) (st_rng s) = (outs, r')"
    by (cases "agent_loop G (st_platform s) (st_hr s) 0 (st_agents s) (st_rng s)")
  have "round_records G s = map (\<lambda>out. snd (snd out)) outs"
    by (simp add: round_records_def round_outs_def ol)
  with assms have "accepted_set_of (st_hr s) (map (\<lambda>out. snd (snd out)) outs) = Inl e"
    by simp
  then show ?thesis
    by (simp add: iteration_def ol Let_def)
qed

text \<open>The same, read from the result of a round that has returned.\<close>

lemma iteration_unfold:
  assumes "iteration G s = Inr s'"
  obtains A m where
    "accepted_set_of (st_hr s) (round_records G s) = Inr A"
    "compute_iteration_metrics (map group (st_agents s)) (round_shown G s) (round_chosen G s)
             (map (\<lambda>i. i \<in> A) [0..<length (st_agents s)])
             (p_high (platform_feedback (round_records G s) A (st_platform s)) GroupA)
             (p_high (platform_feedback (round_records G s) A (st_platform s)) GroupB)
             (st_prev_disparity s) = Inr m"
    "s' = s\<lparr>st_agents := map2 internalize (st_agents s) (round_shown G s),
            st_platform := platform_feedback (round_records G s) A (st_platform s),
            st_rng := snd (agent_loop G (st_platform s) (st_hr s) 0 (st_agents s) (st_rng s)),
            st_prev_disparity := Some (disparity_exposure m),
            st_history := st_history s @ [m]\<rparr>"
proof (cases "accepted_set_of (st_hr s) (round_records G s)")
  case (Inl e)
  then have "iteration G s = Inl e" by (rule iteration_error)
  with assms show ?thesis by simp
next
  case (Inr A)
  obtain m where
    m: "compute_iteration_metrics (map group (st_agents s)) (round_shown G s) (round_chosen G s)
             (map (\<lambda>i. i \<in> A) [0..<length (st_agents s)])
             (p_high (platform_feedback (round_records G s) A (st_platform s)) GroupA)
             (p_high (platform_feedback (round_records G s) A (st_platform s)) GroupB)
             (st_prev_disparity s) = Inr m"
    and it: "iteration G s = Inr (s\<lparr>st_agents := map2 internalize (st_agents s) (round_shown G s),
                 st_platform := platform_feedback (round_records G s) A (st_platform s),
                 st_rng := snd (agent_loop G (st_platform s) (st_hr s) 0 (st_agents s) (st_rng s)),
                 st_prev_disparity := Some (disparity_exposure m),
                 st_history := st_history s @ [m]\<rparr>)"
    using iteration_result [OF Inr] by blast
  from it assms have "s' = s\<lparr>st_agents := map2 internalize (st_agents s) (round_shown G s),
            st_platform := platform_feedback (round_records G s) A (st_platform s),
            st_rng := snd (agent_loop G (st_platform s) (st_hr s) 0 (st_agents s) (st_rng s)),
            st_prev_disparity := Some (disparity_exposure m),
            st_history := st_history s @ [m]\<rparr>"
    by simp
  with Inr m show ?thesis by (rule that)
qed

lemma iteration_returns: "round_cap_ok s \<Longrightarrow> \<exists>s'. iteration G s = Inr s'"
proof -
  assume "round_cap_ok s"
  then obtain A where "accepted_set_of (st_hr s) (round_records G s) = Inr A"
    by (simp add: round_accepted_cases)
  then show ?thesis
    using iteration_result [of s G A] by blast
qed

lemma iteration_raises: "\<not> round_cap_ok s \<Longrightarrow> iteration G s = Inl OverflowError"
  by (rule iteration_error) (simp add: round_accepted_cases)

lemma iteration_cap_ok: "iteration G s = Inr s' \<Longrightarrow> round_cap_ok s"
  using iteration_raises [of s G] by force

lemma iteration_history:
  "iteration G s = Inr s' \<Longrightarrow> \<exists>m. st_history s' = st_history s @ [m]"
  by (erule iteration_unfold) simp

subsection \<open>What a round changes\<close>

lemma observed_signal_update_group:
  "observed_signal (update_group recs acc g pl) recs' acc' g' = observed_signal pl recs' acc' g'"
  by (simp add: observed_signal_def update_group_def Let_def)

lemma platform_feedback_p_high:
  "p_high (platform_feedback recs acc pl) g =
     clamp (fadd (fmul (fsub 1 (learning_rate pl)) (p_high pl g))
                 (fmul (learning_rate pl) (observed_signal pl recs acc g))) 0 1"
  by (cases g) (simp_all add: platform_feedback_def update_group_def observed_signal_def Let_def)

lemma platform_feedback_params:
  "learning_rate (platform_feedback recs acc pl) = learning_rate pl"
  "diversity_regularization (platform_feedback recs acc pl) = diversity_regularization pl"
  "feedback_weight (platform_feedback recs acc pl) = feedback_weight pl"
  by (simp_all add: platform_feedback_def update_group_def)

lemma clamp_unit: "0 \<le> clamp x 0 1 \<and> clamp x 0 1 \<le> 1"
  by (simp add: clamp_def)

lemma internalize_fields:
  "group (internalize a sh) = group a"
  "skill (internalize a sh) = skill a"
  "trust_in_algorithm (internalize a sh) = trust_in_algorithm a"
  "adaptation_speed (internalize a sh) = adaptation_speed a"
  "risk_tolerance (internalize a sh) = risk_tolerance a"
  "preference_for_high (internalize a sh) =
     clamp (fadd (fmul (fsub 1 (adaptation_speed a)) (preference_for_high a))
                 (fmul (adaptation_speed a) (of_int sh))) 0 1"
  by (simp_all add: internalize_def)

lemma map2_internalize_field:
  assumes "length shs = length as" and "\<And>a sh. f (internalize a sh) = f a"
  shows "map f (map2 internalize as shs) = map f as"
  using assms(1)
proof (induction as arbitrary: shs)
  case Nil then show ?case by simp
next
  case (Cons a as)
  then obtain sh rest where "shs = sh # rest" "length rest = length as" by (cases shs) auto
  with Cons.IH assms(2) show ?case by simp
qed

lemma map2_internalize_pref:
  "list_all (\<lambda>a. 0 \<le> preference_for_high a \<and> preference_for_high a \<le> 1) (map2 internalize as shs)"
proof (induction as arbitrary: shs)
  case Nil
  show ?case by simp
next
  case (Cons a as)
  show ?case
  proof (cases shs)
    case Nil
    then show ?thesis by simp
  next
    case (Cons sh rest)
    then show ?thesis
      using Cons.IH [of rest] by (simp add: internalize_fields clamp_unit)
  qed
qed

lemma same_fixed_fields_refl: "same_fixed_fields s s"
  by (simp add: same_fixed_fields_def)

lemma same_fixed_fields_trans:
  "same_fixed_fields s s1 \<Longrightarrow> same_fixed_fields s1 s2 \<Longrightarrow> same_fixed_fields s s2"
  by (simp add: same_fixed_fields_def)

lemma same_fixed_fields_cap_ok:
  "same_fixed_fields s s' \<Longrightarrow> round_cap_ok s' = round_cap_ok s"
  by (simp add: same_fixed_fields_def round_cap_ok_def)

lemma iteration_fixed:
  assumes "iteration G s = Inr s'"
  shows "same_fixed_fields s s'"
    and "\<exists>A. accepted_set_of (st_hr s) (round_records G s) = Inr A
          \<and> (\<forall>g. p_high (st_platform s') g =
                clamp (fadd (fmul (fsub 1 (learning_rate (st_platform s)))
                                  (p_high (st_platform s) g))
                            (fmul (learning_rate (st_platform s))
                                  (observed_signal (st_platform s) (round_records G s) A g)))
                  0 1)"
    and "st_agents s' = map2 internalize (st_agents s) (round_shown G s)"
proof -
  obtain A m where A: "accepted_set_of (st_hr s) (round_records G s) = Inr A"
    and s': "s' = s\<lparr>st_agents := map2 internalize (st_agents s) (round_shown G s),
            st_platform := platform_feedback (round_records G s) A (st_platform s),
            st_rng := snd (agent_loop G (st_platform s) (st_hr s) 0 (st_agents s) (st_rng s)),
            st_prev_disparity := Some (disparity_exposure m),
            st_history := st_history s @ [m]\<rparr>"
    using assms by (rule iteration_unfold)
  have len: "length (round_shown G s) = length (st_agents s)" by (rule round_shown_length)
  have f: "map group (map2 internalize (st_agents s) (round_shown G s)) = map group (st_agents s)"
    "map skill (map2 internalize (st_agents s) (round_shown G s)) = map skill (st_agents s)"
    "map trust_in_algorithm (map2 internalize (st_agents s) (round_shown G s))
       = map trust_in_algorithm (st_agents s)"
    "map adaptation_speed (map2 internalize (st_agents s) (round_shown G s))
       = map adaptation_speed (st_agents s)"
    "map risk_tolerance (map2 internalize (st_agents s) (round_shown G s))
       = map risk_tolerance (st_agents s)"
    by (rule map2_internalize_field [OF len], simp add: internalize_fields)+
  show "same_fixed_fields s s'"
    unfolding s' same_fixed_fields_def
    using f by (simp add: platform_feedback_params len)
  have "\<forall>g. p_high (st_platform s') g =
                clamp (fadd (fmul (fsub 1 (learning_rate (st_platform s)))
                                  (p_high (st_platform s) g))
                            (fmul (learning_rate (st_platform s))
                                  (observed_signal (st_platform s) (round_records G s) A g)))
                  0 1"
    unfolding s' by (simp add: platform_feedback_p_high)
  with A show "\<exists>A. accepted_set_of (st_hr s) (round_records G s) = Inr A
          \<and> (\<forall>g. p_high (st_platform s') g =
                clamp (fadd (fmul (fsub 1 (learning_rate (st_platform s)))
                                  (p_high (st_platform s) g))
                            (fmul (learning_rate (st_platform s))
                                  (observed_signal (st_platform s) (round_records G s) A g)))
                  0 1)"
    by blast
  show "st_agents s' = map2 internalize (st_agents s) (round_shown G s)"
    unfolding s' by simp
qed

subsection \<open>The loop\<close>

text \<open>The loop unrolled at its last round.\<close>

lemma run_loop_snoc:
  "run_loop G (Suc n) s =
     (case run_loop G n s of Inl e \<Rightarrow> Inl e | Inr s' \<Rightarrow> iteration G s')"
proof (induction n arbitrary: s)
  case 0
  show ?case by (simp split: sum.splits)
next
  case (Suc n)
  show ?case
  proof (cases "iteration G s")
    case (Inl e)
    then show ?thesis by simp
  next
    case (Inr s1)
    have "run_loop G (Suc (Suc n)) s = run_loop G (Suc n) s1"
      using Inr by simp
    also have "\<dots> = (case run_loop G n s1 of Inl e \<Rightarrow> Inl e | Inr s' \<Rightarrow> iteration G s')"
      by (rule Suc.IH)
    also have "run_loop G n s1 = run_loop G (Suc n) s"
      using Inr by simp
    finally show ?thesis .
  qed
qed

lemma run_loop_last:
  assumes "run_loop G (Suc n) s = Inr s'"
  obtains sn where "run_loop G n s = Inr sn" and "iteration G sn = Inr s'"
proof (cases "run_loop G n s")
  case (Inl e)
  then have "run_loop G (Suc n) s = Inl e"
    by (simp add: run_loop_snoc del: run_loop.simps)
  with assms show ?thesis by simp
next
  case (Inr sn)
  then have "run_loop G (Suc n) s = iteration G sn"
    by (simp add: run_loop_snoc del: run_loop.simps)
  with assms Inr show ?thesis by (simp add: that)
qed

lemma run_loop_fixed:
  "run_loop G n s = Inr s' \<Longrightarrow> same_fixed_fields s s'"
proof (induction n arbitrary: s')
  case 0 then show ?case by (simp add: same_fixed_fields_refl)
next
  case (Suc n)
  obtain sn where sn: "run_loop G n s = Inr sn" and it: "iteration G sn = Inr s'"
    using Suc.prems by (rule run_loop_last)
  have "same_fixed_fields s sn" using sn by (rule Suc.IH)
  moreover have "same_fixed_fields sn s'" using it by (rule iteration_fixed)
  ultimately show ?case by (rule same_fixed_fields_trans)
qed

lemma run_loop_returns: "round_cap_ok s \<Longrightarrow> \<exists>s'. run_loop G n s = Inr s'"
proof (induction n)
  case 0
  show ?case by simp
next
  case (Suc n)
  then obtain sn where sn: "run_loop G n s = Inr sn" by blast
  have "round_cap_ok sn"
    using same_fixed_fields_cap_ok [OF run_loop_fixed [OF sn]] Suc.prems by simp
  then obtain s' where "iteration G sn = Inr s'"
    using iteration_returns by blast
  then show ?case
    using sn by (simp add: run_loop_snoc del: run_loop.simps)
qed


lemma run_loop_prefix:
  "run_loop G n s = Inr s' \<Longrightarrow> k \<le> n \<Longrightarrow> \<exists>sk. run_loop G k s = Inr sk"
proof (induction n arbitrary: s')
  case 0
  then show ?case by simp
next
  case (Suc n)
  obtain sn where sn: "run_loop G n s = Inr sn"
    using Suc.prems(1) by (rule run_loop_last)
  show ?case
  proof (cases "k = Suc n")
    case True
    then show ?thesis using Suc.prems(1) by blast
  next
    case False
    then have "k \<le> n" using Suc.prems(2) by simp
    then show ?thesis using Suc.IH [OF sn] by blast
  qed
qed

lemma run_loop_history_length:
  "run_loop G n s = Inr s' \<Longrightarrow> length (st_history s') = length (st_history s) + n"
proof (induction n arbitrary: s')
  case 0
  then show ?case by simp
next
  case (Suc n)
  obtain sn where sn: "run_loop G n s = Inr sn" and it: "iteration G sn = Inr s'"
    using Suc.prems by (rule run_loop_last)
  obtain m where "st_history s' = st_history sn @ [m]"
    using iteration_history [OF it] by blast
  then show ?case
    using Suc.IH [OF sn] by simp
qed

lemma run_loop_history_prefix:
  "run_loop G n s = Inr s' \<Longrightarrow> k \<le> n \<Longrightarrow> run_loop G k s = Inr sk \<Longrightarrow>
   st_history sk = take (length (st_history s) + k) (st_history s')"
proof (induction n arbitrary: s')
  case 0
  then show ?case by simp
next
  case (Suc n)
  obtain sn where sn: "run_loop G n s = Inr sn" and it: "iteration G sn = Inr s'"
    using Suc.prems(1) by (rule run_loop_last)
  obtain m where m: "st_history s' = st_history sn @ [m]"
    using iteration_history [OF it] by blast
  have ln: "length (st_history sn) = length (st_history s) + n"
    using run_loop_history_length sn by blast
  show ?case
  proof (cases "k = Suc n")
    case True
    then have "sk = s'"
      using Suc.prems by simp
    moreover have "length (st_history s') = length (st_history s) + Suc n"
      using m ln by simp
    ultimately show ?thesis
      using True by simp
  next
    case False
    then have "k \<le> n"
      using Suc.prems by simp
    then have "st_history sk = take (length (st_history s) + k) (st_history sn)"
      using Suc.IH sn Suc.prems(3) by blast
    then show ?thesis
      using m ln \<open>k \<le> n\<close> by simp
  qed
qed

subsection \<open>The initial state\<close>

lemma make_agents_length: "length (fst (make_agents G p n r)) = n"
proof (induction n arbitrary: r)
  case 0
  show ?case by simp
next
  case (Suc n)
  obtain u r1 where d1: "rng_random G r = (u, r1)"
    by (cases "rng_random G r")
  obtain z1 r2 where d2: "rng_gauss G 0.5 (double_round 0.15) r1 = (z1, r2)"
    by (cases "rng_gauss G 0.5 (double_round 0.15) r1")
  obtain z2 r3 where d3: "rng_gauss G 0 (double_round 0.05) r2 = (z2, r3)"
    by (cases "rng_gauss G 0 (double_round 0.05) r2")
  obtain rest r4 where d4: "make_agents G p n r3 = (rest, r4)"
    by (cases "make_agents G p n r3")
  have "length rest = n"
    using Suc.IH [of r3] d4 by simp
  then show ?case
    using d1 d2 d3 d4 by simp
qed

lemma make_agents_pref:
  "list_all (\<lambda>a. 0 \<le> preference_for_high a \<and> preference_for_high a \<le> 1) (fst (make_agents G p n r))"
proof (induction n arbitrary: r)
  case 0
  show ?case by simp
next
  case (Suc n)
  obtain u r1 where d1: "rng_random G r = (u, r1)"
    by (cases "rng_random G r")
  obtain z1 r2 where d2: "rng_gauss G 0.5 (double_round 0.15) r1 = (z1, r2)"
    by (cases "rng_gauss G 0.5 (double_round 0.15) r1")
  obtain z2 r3 where d3: "rng_gauss G 0 (double_round 0.05) r2 = (z2, r3)"
    by (cases "rng_gauss G 0 (double_round 0.05) r2")
  obtain rest r4 where d4: "make_agents G p n r3 = (rest, r4)"
    by (cases "make_agents G p n r3")
  have "list_all (\<lambda>a. 0 \<le> preference_for_high a \<and> preference_for_high a \<le> 1) rest"
    using Suc.IH [of r3] d4 by simp
  then show ?case
    using d1 d2 d3 d4 by (simp add: clamp_unit)
qed

lemma init_history: "st_history (init_state G p) = []"
  by (simp add: init_state_def split: prod.splits)

lemma init_prev: "st_prev_disparity (init_state G p) = None"
  by (simp add: init_state_def split: prod.splits)

lemma init_hr: "hiring_capacity (st_hr (init_state G p)) = param_hiring_capacity p"
  by (simp add: init_state_def split: prod.splits)

lemma init_agents_length: "length (st_agents (init_state G p)) = nat (n_agents p)"
proof -
  obtain agents r where
    ma: "make_agents G p (nat (n_agents p)) (rng_seed G (seed p)) = (agents, r)"
    by (cases "make_agents G p (nat (n_agents p)) (rng_seed G (seed p))")
  have "length agents = nat (n_agents p)"
    using make_agents_length [of G p "nat (n_agents p)" "rng_seed G (seed p)"] ma by simp
  then show ?thesis
    by (simp add: init_state_def ma)
qed

lemma init_cap_ok: "round_cap_ok (init_state G p) = run_cap_ok p"
  by (simp add: round_cap_ok_def run_cap_ok_def init_hr init_agents_length)

text \<open>
  Over the documented range \<open>[0, 1]\<close> of the capacity the product is finite, whatever
  the population size (up to \<open>2\<^sup>1\<^sup>0\<^sup>0\<^sup>0\<close> agents).
\<close>

lemma run_cap_ok_documented:
  assumes "0 \<le> param_hiring_capacity p" and "param_hiring_capacity p \<le> 1"
    and "n_agents p \<le> 2 ^ 1000"
  shows "run_cap_ok p"
proof -
  have "int (nat (n_agents p)) \<le> 2 ^ 1000"
    using assms(3) by simp
  then have "nat (n_agents p) \<le> 2 ^ 1000"
    by (metis of_nat_le_iff of_nat_numeral of_nat_power)
  then show ?thesis
    unfolding run_cap_ok_def using assms(1,2) by (intro capacity_product_finite)
qed

lemma init_in_unit: "state_in_unit (init_state G p)"
proof -
  obtain agents r where
    ma: "make_agents G p (nat (n_agents p)) (rng_seed G (seed p)) = (agents, r)"
    by (cases "make_agents G p (nat (n_agents p)) (rng_seed G (seed p))")
  have "list_all (\<lambda>a. 0 \<le> preference_for_high a \<and> preference_for_high a \<le> 1) agents"
    using make_agents_pref [of G p "nat (n_agents p)" "rng_seed G (seed p)"] ma by simp
  then show ?thesis
    by (simp add: state_in_unit_def in_unit_def init_state_def ma)
qed

subsection \<open>The run\<close>

lemma run_simulation_cases:
  "run_simulation G p =
     (case run_loop G (nat (iterations p)) (init_state G p) of
        Inl e \<Rightarrow> Inl e
      | Inr sf \<Rightarrow> Inr \<lparr>res_iterations = st_history sf, res_params = p\<rparr>)"
  by (simp add: run_simulation_def split: sum.splits)

lemma run_simulation_unfold:
  assumes "run_simulation G p = Inr res"
  obtains sf where "run_loop G (nat (iterations p)) (init_state G p) = Inr sf"
    and "res = \<lparr>res_iterations = st_history sf, res_params = p\<rparr>"
    and "length (st_history sf) = nat (iterations p)"
proof (cases "run_loop G (nat (iterations p)) (init_state G p)")
  case (Inl e)
  with assms show ?thesis by (simp add: run_simulation_cases)
next
  case (Inr sf)
  have "length (st_history sf) = nat (iterations p)"
    using run_loop_history_length [OF Inr] by (simp add: init_history)
  moreover have "res = \<lparr>res_iterations = st_history sf, res_params = p\<rparr>"
    using assms Inr by (simp add: run_simulation_cases)
  ultimately show ?thesis using Inr that by blast
qed

lemma run_simulation_returns:
  assumes "run_cap_ok p \<or> iterations p \<le> 0"
  shows "\<exists>res. run_simulation G p = Inr res"
proof -
  have "\<exists>sf. run_loop G (nat (iterations p)) (init_state G p) = Inr sf"
  proof (cases "run_cap_ok p")
    case True
    then show ?thesis
      using run_loop_returns [of "init_state G p" G] by (simp add: init_cap_ok)
  next
    case False
    then have "nat (iterations p) = 0" using assms by simp
    then show ?thesis by simp
  qed
  then show ?thesis
    by (auto simp: run_simulation_cases)
qed


lemma demo_cap_ok: "run_cap_ok demo_params"
  by (simp add: run_cap_ok_def demo_params_def fmul_def double_round_simple is_inf_def)



subsection \<open>The number of rounds\<close>




subsection \<open>The unit-interval invariant\<close>

lemma iteration_in_unit: "iteration G s = Inr s' \<Longrightarrow> state_in_unit s'"
proof -
  assume a: "iteration G s = Inr s'"
  obtain A m where
    s': "s' = s\<lparr>st_agents := map2 internalize (st_agents s) (round_shown G s),
            st_platform := platform_feedback (round_records G s) A (st_platform s),
            st_rng := snd (agent_loop G (st_platform s) (st_hr s) 0 (st_agents s) (st_rng s)),
            st_prev_disparity := Some (disparity_exposure m),
            st_history := st_history s @ [m]\<rparr>"
    using a by (rule iteration_unfold)
  show ?thesis
    unfolding s' state_in_unit_def in_unit_def
    using map2_internalize_pref by (simp add: platform_feedback_p_high clamp_unit)
qed

lemma run_loop_in_unit:
  "state_in_unit s \<Longrightarrow> run_loop G n s = Inr s' \<Longrightarrow> state_in_unit s'"
proof (induction n arbitrary: s')
  case 0 then show ?case by simp
next
  case (Suc n)
  obtain sn where "run_loop G n s = Inr sn" and "iteration G sn = Inr s'"
    using Suc.prems(2) by (rule run_loop_last)
  then show ?case by (simp add: iteration_in_unit)
qed

text \<open>
  C2. Whenever one round started in any state (whatever values its fields hold)
  returns, \<open>p_high\<close> of both groups and the preference of every agent lie in \<open>[0, 1]\<close>
  in the state it returns; and it does return when the capacity product of the state is
  finite. The same holds for the state of any run after any number \<open>t\<close> of rounds, for
  every parameter set, documented ranges or not: whenever the first \<open>t\<close> rounds have
  returned, their state is in the unit interval, and they do return when the capacity
  product of the parameters is finite.
\<close>

theorem state_stays_in_unit_interval:
  "(\<forall>s'. iteration G s = Inr s' \<longrightarrow> state_in_unit s')
   \<and> (round_cap_ok s \<longrightarrow> (\<exists>s'. iteration G s = Inr s' \<and> state_in_unit s'))
   \<and> (\<forall>st. run_loop G t (init_state G params) = Inr st \<longrightarrow> state_in_unit st)
   \<and> (run_cap_ok params \<longrightarrow>
        (\<exists>st. run_loop G t (init_state G params) = Inr st \<and> state_in_unit st))"
proof (intro conjI allI impI)
  fix s' assume "iteration G s = Inr s'"
  then show "state_in_unit s'" by (rule iteration_in_unit)
next
  assume "round_cap_ok s"
  then obtain s' where "iteration G s = Inr s'" using iteration_returns by blast
  then show "\<exists>s'. iteration G s = Inr s' \<and> state_in_unit s'"
    using iteration_in_unit by blast
next
  fix st assume "run_loop G t (init_state G params) = Inr st"
  then show "state_in_unit st"
    using run_loop_in_unit init_in_unit by blast
next
  assume "run_cap_ok params"
  then have "round_cap_ok (init_state G params)" by (simp add: init_cap_ok)
  then obtain st where "run_loop G t (init_state G params) = Inr st"
    using run_loop_returns by blast
  then show "\<exists>st. run_loop G t (init_state G params) = Inr st \<and> state_in_unit st"
    using run_loop_in_unit init_in_unit by blast
qed

theorem state_stays_in_unit_interval_witness:
  "run_cap_ok demo_params
   \<and> (\<exists>st. run_loop demo_rng 2 (init_state demo_rng demo_params) = Inr st
          \<and> state_in_unit st)"
  using state_stays_in_unit_interval [of demo_rng "init_state demo_rng demo_params" 2 demo_params]
    demo_cap_ok
  by simp

subsection \<open>The frame of a round\<close>

text \<open>
  C9. Whenever one round started in any state returns, the state it returns agrees with
  the state it started in on the HR department, on the three platform parameters and,
  agent by agent, on group, skill, trust, adaptation speed and risk tolerance.
  \<open>p_high\<close> of each group is one moving-average step from its value before the round,
  and each preference is one moving-average step from its value before the round, both
  computed from the records, the accepted set and the shown levels of that round, which
  are read off the state the round started in. The round returns when the capacity
  product of its state is finite. Over a whole run the state after any number of rounds
  agrees with the initial state on all the fixed fields, and the rounds return when the
  capacity product of the parameters is finite.
\<close>

theorem iteration_frame:
  "(\<forall>s'. iteration G s = Inr s' \<longrightarrow>
        same_fixed_fields s s'
        \<and> (\<exists>A. accepted_set_of (st_hr s) (round_records G s) = Inr A
             \<and> p_high (st_platform s') GroupA =
                 clamp (fadd (fmul (fsub 1 (learning_rate (st_platform s)))
                                   (p_high (st_platform s) GroupA))
                             (fmul (learning_rate (st_platform s))
                                   (observed_signal (st_platform s) (round_records G s) A GroupA)))
                   0 1
             \<and> p_high (st_platform s') GroupB =
                 clamp (fadd (fmul (fsub 1 (learning_rate (st_platform s)))
                                   (p_high (st_platform s) GroupB))
                             (fmul (learning_rate (st_platform s))
                                   (observed_signal (st_platform s) (round_records G s) A GroupB)))
                   0 1)
        \<and> map preference_for_high (st_agents s') =
            map2 (\<lambda>a shown. clamp (fadd (fmul (fsub 1 (adaptation_speed a))
                                                (preference_for_high a))
                                          (fmul (adaptation_speed a) (of_int shown))) 0 1)
              (st_agents s) (round_shown G s))
   \<and> (round_cap_ok s \<longrightarrow> (\<exists>s'. iteration G s = Inr s'))
   \<and> (\<forall>st. run_loop G t (init_state G params) = Inr st \<longrightarrow>
          same_fixed_fields (init_state G params) st)
   \<and> (run_cap_ok params \<longrightarrow> (\<exists>st. run_loop G t (init_state G params) = Inr st))"
proof (intro conjI allI impI)
  fix s' assume s': "iteration G s = Inr s'"
  show "same_fixed_fields s s'" using s' by (rule iteration_fixed)
  show "\<exists>A. accepted_set_of (st_hr s) (round_records G s) = Inr A
             \<and> p_high (st_platform s') GroupA =
                 clamp (fadd (fmul (fsub 1 (learning_rate (st_platform s)))
                                   (p_high (st_platform s) GroupA))
                             (fmul (learning_rate (st_platform s))
                                   (observed_signal (st_platform s) (round_records G s) A GroupA)))
                   0 1
             \<and> p_high (st_platform s') GroupB =
                 clamp (fadd (fmul (fsub 1 (learning_rate (st_platform s)))
                                   (p_high (st_platform s) GroupB))
                             (fmul (learning_rate (st_platform s))
                                   (observed_signal (st_platform s) (round_records G s) A GroupB)))
                   0 1"
    using iteration_fixed(2) [OF s'] by blast
  have "map preference_for_high (map2 internalize as shs) =
          map2 (\<lambda>a shown. clamp (fadd (fmul (fsub 1 (adaptation_speed a))
                                              (preference_for_high a))
                                        (fmul (adaptation_speed a) (of_int shown))) 0 1)
            as shs" for as shs
    by (auto simp: internalize_def)
  then show "map preference_for_high (st_agents s') =
            map2 (\<lambda>a shown. clamp (fadd (fmul (fsub 1 (adaptation_speed a))
                                                (preference_for_high a))
                                          (fmul (adaptation_speed a) (of_int shown))) 0 1)
              (st_agents s) (round_shown G s)"
    using iteration_fixed(3) [OF s'] by simp
next
  assume "round_cap_ok s"
  then show "\<exists>s'. iteration G s = Inr s'" by (rule iteration_returns)
next
  fix st assume "run_loop G t (init_state G params) = Inr st"
  then show "same_fixed_fields (init_state G params) st" by (rule run_loop_fixed)
next
  assume "run_cap_ok params"
  then have "round_cap_ok (init_state G params)" by (simp add: init_cap_ok)
  then show "\<exists>st. run_loop G t (init_state G params) = Inr st"
    by (rule run_loop_returns)
qed

theorem iteration_frame_witness:
  "run_cap_ok demo_params
   \<and> (\<exists>st. run_loop demo_rng 2 (init_state demo_rng demo_params) = Inr st
          \<and> same_fixed_fields (init_state demo_rng demo_params) st
          \<and> length (st_agents st) = 3)"
proof -
  have l: "length (st_agents (init_state demo_rng demo_params)) = 3"
    by (simp add: init_agents_length) (simp add: demo_params_def)
  obtain st where st: "run_loop demo_rng 2 (init_state demo_rng demo_params) = Inr st"
    using iteration_frame [of demo_rng "init_state demo_rng demo_params" 2 demo_params]
      demo_cap_ok by blast
  have "same_fixed_fields (init_state demo_rng demo_params) st"
    using iteration_frame [of demo_rng "init_state demo_rng demo_params" 2 demo_params] st
    by blast
  then show ?thesis
    using st l demo_cap_ok by (auto simp: same_fixed_fields_def)
qed

subsection \<open>The recorded snapshot of a round\<close>

lemma metrics_fields:
  assumes "compute_iteration_metrics gs sh ch ac pA pB prev = Inr m"
  shows "exposure_high_A m = py_round (raw_exposure GroupA gs sh) 6"
    and "exposure_high_B m = py_round (raw_exposure GroupB gs sh) 6"
    and "disparity_exposure m
           = py_round (fsub (raw_exposure GroupA gs sh) (raw_exposure GroupB gs sh)) 6"
    and "reinforcement_index m =
           py_round (case prev of
                       Some d \<Rightarrow> fsub (fsub (raw_exposure GroupA gs sh)
                                              (raw_exposure GroupB gs sh)) d
                     | None \<Rightarrow> 0) 6"
proof -
  obtain a where a: "shannon_entropy (raw_exposure GroupA gs sh) = Inr a"
    using shannon_entropy_returns by blast
  obtain b where b: "shannon_entropy (raw_exposure GroupB gs sh) = Inr b"
    using shannon_entropy_returns by blast
  have m: "m = \<lparr>exposure_high_A = py_round (raw_exposure GroupA gs sh) 6,
             exposure_high_B = py_round (raw_exposure GroupB gs sh) 6,
             choice_high_A = py_round (safe_div (of_int (sum_group GroupA gs ch)) (of_int (count_group GroupA gs)) 0) 6,
             choice_high_B = py_round (safe_div (of_int (sum_group GroupB gs ch)) (of_int (count_group GroupB gs)) 0) 6,
             acceptance_rate_A = py_round (safe_div (of_int (count_accepted GroupA gs ac)) (of_int (count_group GroupA gs)) 0) 6,
             acceptance_rate_B = py_round (safe_div (of_int (count_accepted GroupB gs ac)) (of_int (count_group GroupB gs)) 0) 6,
             diversity_entropy_A = py_round a 6,
             diversity_entropy_B = py_round b 6,
             disparity_exposure = py_round (fsub (raw_exposure GroupA gs sh) (raw_exposure GroupB gs sh)) 6,
             disparity_accept = py_round (fsub (safe_div (of_int (count_accepted GroupA gs ac)) (of_int (count_group GroupA gs)) 0)
                                  (safe_div (of_int (count_accepted GroupB gs ac)) (of_int (count_group GroupB gs)) 0)) 6,
             reinforcement_index = py_round (case prev of
                       Some d \<Rightarrow> fsub (fsub (raw_exposure GroupA gs sh)
                                              (raw_exposure GroupB gs sh)) d
                     | None \<Rightarrow> 0) 6,
             p_high_A = py_round pA 6,
             p_high_B = py_round pB 6\<rparr>"
    using assms a b unfolding compute_iteration_metrics_def raw_exposure_def Let_def
    by simp
  show "exposure_high_A m = py_round (raw_exposure GroupA gs sh) 6"
    and "exposure_high_B m = py_round (raw_exposure GroupB gs sh) 6"
    and "disparity_exposure m
           = py_round (fsub (raw_exposure GroupA gs sh) (raw_exposure GroupB gs sh)) 6"
    and "reinforcement_index m =
           py_round (case prev of
                       Some d \<Rightarrow> fsub (fsub (raw_exposure GroupA gs sh)
                                              (raw_exposure GroupB gs sh)) d
                     | None \<Rightarrow> 0) 6"
    by (simp_all add: m)
qed

lemma iteration_snapshot:
  assumes "iteration G s = Inr s'"
  obtains m where "st_history s' = st_history s @ [m]"
    and "st_prev_disparity s' = Some (disparity_exposure m)"
    and "exposure_high_A m = py_round (round_exposure G s GroupA) 6"
    and "exposure_high_B m = py_round (round_exposure G s GroupB) 6"
    and "disparity_exposure m
           = py_round (fsub (round_exposure G s GroupA) (round_exposure G s GroupB)) 6"
    and "reinforcement_index m =
           py_round (case st_prev_disparity s of
                       Some d \<Rightarrow> fsub (fsub (round_exposure G s GroupA)
                                              (round_exposure G s GroupB)) d
                     | None \<Rightarrow> 0) 6"
proof -
  obtain A m where
    cm: "compute_iteration_metrics (map group (st_agents s)) (round_shown G s) (round_chosen G s)
             (map (\<lambda>i. i \<in> A) [0..<length (st_agents s)])
             (p_high (platform_feedback (round_records G s) A (st_platform s)) GroupA)
             (p_high (platform_feedback (round_records G s) A (st_platform s)) GroupB)
             (st_prev_disparity s) = Inr m"
    and s': "s' = s\<lparr>st_agents := map2 internalize (st_agents s) (round_shown G s),
            st_platform := platform_feedback (round_records G s) A (st_platform s),
            st_rng := snd (agent_loop G (st_platform s) (st_hr s) 0 (st_agents s) (st_rng s)),
            st_prev_disparity := Some (disparity_exposure m),
            st_history := st_history s @ [m]\<rparr>"
    using assms by (rule iteration_unfold)
  show ?thesis
  proof (rule that [of m])
    show "st_history s' = st_history s @ [m]" by (simp add: s')
    show "st_prev_disparity s' = Some (disparity_exposure m)" by (simp add: s')
  qed (simp_all add: metrics_fields [OF cm] round_exposure_def split: option.splits)
qed

lemma run_loop_prev:
  assumes "run_loop G n s0 = Inr s" and "0 < n"
  shows "st_prev_disparity s = Some (disparity_exposure (last (st_history s)))"
proof -
  obtain k where n: "n = Suc k" using assms(2) by (cases n) auto
  obtain sk where "run_loop G k s0 = Inr sk" and "iteration G sk = Inr s"
    using assms(1) unfolding n by (rule run_loop_last)
  then obtain m where "st_history s = st_history sk @ [m]"
    "st_prev_disparity s = Some (disparity_exposure m)"
    using iteration_snapshot [of G sk s] by blast
  then show ?thesis by simp
qed

text \<open>The snapshot at position t of a run's history is the one round t+1 records.\<close>

lemma run_round:
  assumes sf: "run_loop G n (init_state G p) = Inr sf" and t: "t < n"
  obtains st st' where "run_loop G t (init_state G p) = Inr st"
    and "iteration G st = Inr st'"
    and "st_history st' = st_history st @ [st_history sf ! t]"
    and "st_prev_disparity st =
           (if t = 0 then None else Some (disparity_exposure (st_history sf ! (t - 1))))"
proof -
  have t1: "Suc t \<le> n" using t by simp
  obtain st' where st': "run_loop G (Suc t) (init_state G p) = Inr st'"
    using run_loop_prefix [OF sf t1] by blast
  obtain st where st: "run_loop G t (init_state G p) = Inr st"
    and it: "iteration G st = Inr st'"
    using st' by (rule run_loop_last)
  have ht: "st_history st = take t (st_history sf)"
    using run_loop_history_prefix [OF sf _ st] t by (simp add: init_history)
  have ht': "st_history st' = take (Suc t) (st_history sf)"
    using run_loop_history_prefix [OF sf t1 st'] by (simp add: init_history)
  have len: "length (st_history sf) = n"
    using run_loop_history_length [OF sf] by (simp add: init_history)
  have "take (Suc t) (st_history sf) = take t (st_history sf) @ [st_history sf ! t]"
    using t len by (simp add: take_Suc_conv_app_nth)
  then have h: "st_history st' = st_history st @ [st_history sf ! t]"
    using ht ht' by simp
  have pv: "st_prev_disparity st =
           (if t = 0 then None else Some (disparity_exposure (st_history sf ! (t - 1))))"
  proof (cases "t = 0")
    case True
    then show ?thesis using st init_prev [of G p] by auto
  next
    case False
    then have "st_prev_disparity st = Some (disparity_exposure (last (st_history st)))"
      using run_loop_prev [OF st] by simp
    moreover have "last (st_history st) = st_history sf ! (t - 1)"
    proof -
      have ne: "take t (st_history sf) \<noteq> []"
        using False t len by auto
      have lt: "length (take t (st_history sf)) = t"
        using t len by simp
      have "last (take t (st_history sf)) = take t (st_history sf) ! (t - 1)"
        using last_conv_nth [OF ne] lt by simp
      also have "\<dots> = st_history sf ! (t - 1)"
        using False by simp
      finally show ?thesis
        by (simp add: ht)
    qed
    ultimately show ?thesis using False by simp
  qed
  show ?thesis
    using st it h pv by (rule that)
qed

lemma run_snapshot:
  assumes sf: "run_loop G n (init_state G p) = Inr sf" and t: "t < n"
  obtains st where "run_loop G t (init_state G p) = Inr st"
    and "st_prev_disparity st =
           (if t = 0 then None else Some (disparity_exposure (st_history sf ! (t - 1))))"
    and "exposure_high_A (st_history sf ! t) = py_round (round_exposure G st GroupA) 6"
    and "exposure_high_B (st_history sf ! t) = py_round (round_exposure G st GroupB) 6"
    and "disparity_exposure (st_history sf ! t) =
           py_round (fsub (round_exposure G st GroupA) (round_exposure G st GroupB)) 6"
    and "reinforcement_index (st_history sf ! t) =
           py_round (case st_prev_disparity st of
                       Some d \<Rightarrow> fsub (fsub (round_exposure G st GroupA)
                                              (round_exposure G st GroupB)) d
                     | None \<Rightarrow> 0) 6"
proof -
  obtain st st' where st: "run_loop G t (init_state G p) = Inr st"
    and it: "iteration G st = Inr st'"
    and h: "st_history st' = st_history st @ [st_history sf ! t]"
    and pv: "st_prev_disparity st =
           (if t = 0 then None else Some (disparity_exposure (st_history sf ! (t - 1))))"
    using sf t by (rule run_round)
  obtain m where m: "st_history st' = st_history st @ [m]"
    and mf: "exposure_high_A m = py_round (round_exposure G st GroupA) 6"
      "exposure_high_B m = py_round (round_exposure G st GroupB) 6"
      "disparity_exposure m
         = py_round (fsub (round_exposure G st GroupA) (round_exposure G st GroupB)) 6"
      "reinforcement_index m =
           py_round (case st_prev_disparity st of
                       Some d \<Rightarrow> fsub (fsub (round_exposure G st GroupA)
                                              (round_exposure G st GroupB)) d
                     | None \<Rightarrow> 0) 6"
    using iteration_snapshot [OF it] by metis
  have mt: "st_history sf ! t = m"
    using m h by simp
  show ?thesis
    by (rule that [OF st pv]) (simp_all add: mt mf)
qed

text \<open>Group sums and counts over a population of one group.\<close>

lemma zip_replicate_left: "zip (replicate n g) xs = map (\<lambda>x. (g, x)) (take n xs)"
proof (induction n arbitrary: xs)
  case 0
  show ?case by simp
next
  case (Suc n)
  show ?case
    by (cases xs) (simp_all add: Suc.IH)
qed

lemma sum_group_replicate:
  "sum_group g (replicate n h) xs = (if h = g then sum_list (take n xs) else 0)"
  by (simp add: sum_group_def zip_replicate_left filter_map o_def)

lemma count_group_replicate:
  "count_group g (replicate n h) = (if h = g then int n else 0)"
  by (simp add: count_group_def)

subsection \<open>The recorded exposure disparity\<close>

text \<open>
  C5, as amended. In every snapshot of the history of a run that returns, the three
  stored fields are the six-decimal roundings of the unrounded exposure rate of group A,
  of the unrounded exposure rate of group B, and of the difference of the two unrounded
  rates (all of them read off the state the round started in); and the run returns when
  the capacity product of the parameters is finite.
\<close>

theorem disparity_exposure_rounded:
  "(\<forall>res. run_simulation G params = Inr res \<longrightarrow>
      (\<forall>t < length (res_iterations res).
           \<exists>st. run_loop G t (init_state G params) = Inr st
             \<and> exposure_high_A (res_iterations res ! t) = py_round (round_exposure G st GroupA) 6
             \<and> exposure_high_B (res_iterations res ! t) = py_round (round_exposure G st GroupB) 6
             \<and> disparity_exposure (res_iterations res ! t)
                 = py_round (fsub (round_exposure G st GroupA) (round_exposure G st GroupB)) 6))
   \<and> (run_cap_ok params \<longrightarrow> (\<exists>res. run_simulation G params = Inr res))"
proof (intro conjI allI impI)
  assume "run_cap_ok params"
  then show "\<exists>res. run_simulation G params = Inr res"
    using run_simulation_returns by blast
next
  fix res t
  assume res: "run_simulation G params = Inr res" and tl: "t < length (res_iterations res)"
  obtain sf where sf: "run_loop G (nat (iterations params)) (init_state G params) = Inr sf"
    and r: "res = \<lparr>res_iterations = st_history sf, res_params = params\<rparr>"
    and len: "length (st_history sf) = nat (iterations params)"
    using res by (rule run_simulation_unfold)
  have t: "t < nat (iterations params)" using tl len by (simp add: r)
  obtain st where st: "run_loop G t (init_state G params) = Inr st"
    and f: "exposure_high_A (st_history sf ! t) = py_round (round_exposure G st GroupA) 6"
      "exposure_high_B (st_history sf ! t) = py_round (round_exposure G st GroupB) 6"
      "disparity_exposure (st_history sf ! t) =
         py_round (fsub (round_exposure G st GroupA) (round_exposure G st GroupB)) 6"
    using run_snapshot [OF sf t] by metis
  show "\<exists>st. run_loop G t (init_state G params) = Inr st
             \<and> exposure_high_A (res_iterations res ! t) = py_round (round_exposure G st GroupA) 6
             \<and> exposure_high_B (res_iterations res ! t) = py_round (round_exposure G st GroupB) 6
             \<and> disparity_exposure (res_iterations res ! t)
                 = py_round (fsub (round_exposure G st GroupA) (round_exposure G st GroupB)) 6"
    unfolding r sim_result.select_convs
    by (rule exI [of _ st]) (intro conjI st f)
qed

theorem disparity_exposure_rounded_witness:
  "run_cap_ok demo_params
   \<and> (\<exists>res st. run_simulation demo_rng demo_params = Inr res
        \<and> 0 < length (res_iterations res)
        \<and> run_loop demo_rng 0 (init_state demo_rng demo_params) = Inr st
        \<and> disparity_exposure (res_iterations res ! 0)
            = py_round (fsub (round_exposure demo_rng st GroupA)
                             (round_exposure demo_rng st GroupB)) 6)"
proof -
  note th = disparity_exposure_rounded [of demo_rng demo_params]
  obtain res where r: "run_simulation demo_rng demo_params = Inr res"
    using th demo_cap_ok by blast
  obtain sf :: "nat sim_state" where
    "res = \<lparr>res_iterations = st_history sf, res_params = demo_params\<rparr>"
    and "length (st_history sf) = nat (iterations demo_params)"
    using r by (rule run_simulation_unfold)
  then have l: "0 < length (res_iterations res)"
    by (simp add: demo_params_def)
  obtain st where "run_loop demo_rng 0 (init_state demo_rng demo_params) = Inr st"
    and "disparity_exposure (res_iterations res ! 0)
            = py_round (fsub (round_exposure demo_rng st GroupA)
                             (round_exposure demo_rng st GroupB)) 6"
    using th r l by blast
  then show ?thesis
    using demo_cap_ok r l by blast
qed

text \<open>
  C5 as stated asks for equality of the stored fields. With three agents of group A, two
  of them shown HIGH, and three agents of group B, one of them shown HIGH, the stored
  rates are the doubles \<open>0.666667\<close> and \<open>0.333333\<close>, whose difference, exact or
  rounded to a double, is not the double \<open>0.333333\<close> (as a double it is \<open>0.333334\<close>);
  the stored disparity is the rounding of the double nearest to \<open>1/3\<close>, which is the
  double \<open>0.333333\<close>.
\<close>

theorem disparity_exposure_counterexample:
  "\<exists>m. compute_iteration_metrics
          [GroupA, GroupA, GroupA, GroupB, GroupB, GroupB] [1, 1, 0, 1, 0, 0]
          [1, 1, 0, 1, 0, 0] [True, True, True, False, False, False] (1 / 2) (1 / 2) None = Inr m
      \<and> exposure_high_A m = double_round 0.666667
      \<and> exposure_high_B m = double_round 0.333333
      \<and> disparity_exposure m = double_round 0.333333
      \<and> fsub (exposure_high_A m) (exposure_high_B m) = double_round 0.333334
      \<and> disparity_exposure m \<noteq> fsub (exposure_high_A m) (exposure_high_B m)
      \<and> disparity_exposure m \<noteq> exposure_high_A m - exposure_high_B m"
proof -
  let ?gs = "[GroupA, GroupA, GroupA, GroupB, GroupB, GroupB]"
  let ?sh = "[1, 1, 0, 1, 0, 0] :: int list"
  obtain m where m: "compute_iteration_metrics ?gs ?sh ?sh
      [True, True, True, False, False, False] (1 / 2) (1 / 2) None = Inr m"
    using metrics_returns by blast
  have a: "raw_exposure GroupA ?gs ?sh = 6004799503160661 / 2 ^ 53"
    using double_round_eval [of "- 1" "2 / 3"]
    by (simp add: raw_exposure_def safe_div_def fdiv_def sum_group_def count_group_def
        round_half_even_def Let_def)
  have b: "raw_exposure GroupB ?gs ?sh = 6004799503160661 / 2 ^ 54"
    using double_round_eval [of "- 2" "1 / 3"]
    by (simp add: raw_exposure_def safe_div_def fdiv_def sum_group_def count_group_def
        round_half_even_def Let_def)
  have va: "double_round 0.666667 = 6004802505560413 / 2 ^ 53"
    using double_round_eval [of "- 1" "0.666667"]
    by (simp add: round_half_even_def Let_def)
  have vb: "double_round 0.333333 = 3002396749180579 / 2 ^ 53"
    using double_round_eval [of "- 2" "0.333333"]
    by (simp add: round_half_even_def Let_def)
  have vd: "double_round 0.333334 = 1501202878189917 / 2 ^ 52"
    using double_round_eval [of "- 2" "0.333334"]
    by (simp add: round_half_even_def Let_def)
  have ra: "py_round (6004799503160661 / 2 ^ 53) 6 = 6004802505560413 / 2 ^ 53"
    using va by (simp add: py_round_def round_half_even_def Let_def)
  have rb: "py_round (6004799503160661 / 2 ^ 54) 6 = 3002396749180579 / 2 ^ 53"
    using vb by (simp add: py_round_def round_half_even_def Let_def)
  have d: "fsub (6004799503160661 / 2 ^ 53) (6004799503160661 / 2 ^ 54)
             = 6004799503160661 / 2 ^ 54"
    using double_round_dyadic [of 6004799503160661 54]
    by (simp add: fsub_def fadd_def is_inf_def)
  have ea: "exposure_high_A m = 6004802505560413 / 2 ^ 53"
    using metrics_fields(1) [OF m] unfolding a ra .
  have eb: "exposure_high_B m = 3002396749180579 / 2 ^ 53"
    using metrics_fields(2) [OF m] unfolding b rb .
  have ed: "disparity_exposure m = 3002396749180579 / 2 ^ 53"
    using metrics_fields(3) [OF m] unfolding a b d rb .
  have fd: "fsub (6004802505560413 / 2 ^ 53) (3002396749180579 / 2 ^ 53)
              = 1501202878189917 / 2 ^ 52"
    using double_round_dyadic [of 1501202878189917 52]
    by (simp add: fsub_def fadd_def is_inf_def)
  show ?thesis
  proof (intro exI conjI)
    show "compute_iteration_metrics ?gs ?sh ?sh
      [True, True, True, False, False, False] (1 / 2) (1 / 2) None = Inr m" by (rule m)
    show "exposure_high_A m = double_round 0.666667" unfolding ea va ..
    show "exposure_high_B m = double_round 0.333333" unfolding eb vb ..
    show "disparity_exposure m = double_round 0.333333" unfolding ed vb ..
    show "fsub (exposure_high_A m) (exposure_high_B m) = double_round 0.333334"
      unfolding ea eb fd vd ..
    show "disparity_exposure m \<noteq> fsub (exposure_high_A m) (exposure_high_B m)"
      unfolding ea eb ed fd by simp
    show "disparity_exposure m \<noteq> exposure_high_A m - exposure_high_B m"
      unfolding ea eb ed by simp
  qed
qed

subsection \<open>The recorded reinforcement index\<close>

lemma py_round_zero: "py_round 0 6 = 0"
  by (simp add: py_round_def round_half_even_def double_round_def)

text \<open>
  C6, as amended. In the history of a run that returns, the reinforcement index of the
  first snapshot is exactly \<open>0\<close>, and the reinforcement index of every later snapshot
  \<open>t\<close> is the six-decimal rounding of the unrounded exposure disparity of round \<open>t\<close>
  minus the disparity stored in snapshot \<open>t - 1\<close>; and the run returns when the capacity
  product of the parameters is finite.
\<close>

theorem reinforcement_index_recorded:
  "(\<forall>res. run_simulation G params = Inr res \<longrightarrow>
      (\<forall>t < length (res_iterations res).
           \<exists>st. run_loop G t (init_state G params) = Inr st
             \<and> reinforcement_index (res_iterations res ! t) =
                 (if t = 0 then 0
                  else py_round (fsub (fsub (round_exposure G st GroupA)
                                            (round_exposure G st GroupB))
                                      (disparity_exposure (res_iterations res ! (t - 1)))) 6)))
   \<and> (run_cap_ok params \<longrightarrow> (\<exists>res. run_simulation G params = Inr res))"
proof (intro conjI allI impI)
  assume "run_cap_ok params"
  then show "\<exists>res. run_simulation G params = Inr res"
    using run_simulation_returns by blast
next
  fix res t
  assume res: "run_simulation G params = Inr res" and tl: "t < length (res_iterations res)"
  obtain sf where sf: "run_loop G (nat (iterations params)) (init_state G params) = Inr sf"
    and r: "res = \<lparr>res_iterations = st_history sf, res_params = params\<rparr>"
    and len: "length (st_history sf) = nat (iterations params)"
    using res by (rule run_simulation_unfold)
  have t: "t < nat (iterations params)" using tl len by (simp add: r)
  obtain st where st: "run_loop G t (init_state G params) = Inr st"
    and pv: "st_prev_disparity st =
           (if t = 0 then None else Some (disparity_exposure (st_history sf ! (t - 1))))"
    and ri: "reinforcement_index (st_history sf ! t) =
           py_round (case st_prev_disparity st of
                       Some d \<Rightarrow> fsub (fsub (round_exposure G st GroupA)
                                              (round_exposure G st GroupB)) d
                     | None \<Rightarrow> 0) 6"
    using run_snapshot [OF sf t] by metis
  have e: "reinforcement_index (st_history sf ! t) =
                 (if t = 0 then 0
                  else py_round (fsub (fsub (round_exposure G st GroupA)
                                            (round_exposure G st GroupB))
                                      (disparity_exposure (st_history sf ! (t - 1)))) 6)"
    unfolding ri pv by (simp add: py_round_zero)
  show "\<exists>st. run_loop G t (init_state G params) = Inr st
             \<and> reinforcement_index (res_iterations res ! t) =
                 (if t = 0 then 0
                  else py_round (fsub (fsub (round_exposure G st GroupA)
                                            (round_exposure G st GroupB))
                                      (disparity_exposure (res_iterations res ! (t - 1)))) 6)"
    unfolding r sim_result.select_convs
    by (rule exI [of _ st]) (intro conjI st e)
qed

theorem reinforcement_index_recorded_witness:
  "run_cap_ok demo_params
   \<and> (\<exists>res. run_simulation demo_rng demo_params = Inr res
        \<and> length (res_iterations res) = 2
        \<and> reinforcement_index (res_iterations res ! 0) = 0
        \<and> (\<exists>st. run_loop demo_rng 1 (init_state demo_rng demo_params) = Inr st
             \<and> reinforcement_index (res_iterations res ! 1) =
                  py_round (fsub (fsub (round_exposure demo_rng st GroupA)
                                       (round_exposure demo_rng st GroupB))
                                 (disparity_exposure (res_iterations res ! 0))) 6))"
proof -
  note th = reinforcement_index_recorded [of demo_rng demo_params]
  obtain res where r: "run_simulation demo_rng demo_params = Inr res"
    using th demo_cap_ok by blast
  obtain sf :: "nat sim_state" where
    "res = \<lparr>res_iterations = st_history sf, res_params = demo_params\<rparr>"
    and "length (st_history sf) = nat (iterations demo_params)"
    using r by (rule run_simulation_unfold)
  then have l: "length (res_iterations res) = 2"
    by (simp add: demo_params_def)
  have l0: "0 < length (res_iterations res)" and l1: "1 < length (res_iterations res)"
    using l by simp_all
  have a0: "reinforcement_index (res_iterations res ! 0) = 0"
    using th r l0 by fastforce
  have a1: "\<exists>st. run_loop demo_rng 1 (init_state demo_rng demo_params) = Inr st
          \<and> reinforcement_index (res_iterations res ! 1) =
               py_round (fsub (fsub (round_exposure demo_rng st GroupA)
                                    (round_exposure demo_rng st GroupB))
                              (disparity_exposure (res_iterations res ! 0))) 6"
    using conjunct1 [OF th, rule_format, OF r l1] by simp
  show ?thesis
    using demo_cap_ok r l a0 a1 by blast
qed

text \<open>
  C6 as stated leaves the final rounding out. Take a population of 128 agents of group A
  with two of them shown HIGH in one round and one in the next. The first snapshot
  stores the disparity \<open>0.015625\<close>. In the second round the unrounded disparity is
  \<open>1/128 = 0.0078125\<close>, stored as the double \<open>0.007812\<close>, and the stored reinforcement
  index is the rounding of \<open>-0.0078125\<close>, a tie that goes to the even neighbour
  \<open>-0.007812\<close>. That is neither the stored disparity minus the previous stored one
  (the double \<open>-0.007813\<close>) nor the unrounded disparity minus the previous stored one
  (\<open>-0.0078125\<close>), whether the difference is taken exactly or in doubles.
\<close>

theorem reinforcement_index_counterexample:
  "\<exists>m1 m2.
      compute_iteration_metrics (replicate 128 GroupA) (1 # 1 # replicate 126 0)
        (replicate 128 0) (replicate 128 False) (1 / 2) (1 / 2) None = Inr m1
    \<and> compute_iteration_metrics (replicate 128 GroupA) (1 # replicate 127 0)
        (replicate 128 0) (replicate 128 False) (1 / 2) (1 / 2)
        (Some (disparity_exposure m1)) = Inr m2
    \<and> disparity_exposure m1 = 0.015625
    \<and> disparity_exposure m2 = double_round 0.007812
    \<and> reinforcement_index m2 = double_round (- 0.007812)
    \<and> reinforcement_index m2 \<noteq> disparity_exposure m2 - disparity_exposure m1
    \<and> reinforcement_index m2 \<noteq> fsub (disparity_exposure m2) (disparity_exposure m1)
    \<and> reinforcement_index m2 \<noteq> 1 / 128 - disparity_exposure m1
    \<and> reinforcement_index m2 \<noteq> fsub (1 / 128) (disparity_exposure m1)"
proof -
  let ?gs = "replicate 128 GroupA"
  let ?sh1 = "1 # 1 # replicate 126 (0::int)"
  let ?sh2 = "1 # replicate 127 (0::int)"
  obtain m1 where m1: "compute_iteration_metrics ?gs ?sh1 (replicate 128 0)
      (replicate 128 False) (1 / 2) (1 / 2) None = Inr m1"
    using metrics_returns by blast
  obtain m2 where m2: "compute_iteration_metrics ?gs ?sh2 (replicate 128 0)
      (replicate 128 False) (1 / 2) (1 / 2) (Some (disparity_exposure m1)) = Inr m2"
    using metrics_returns by blast
  have e: "raw_exposure GroupA ?gs ?sh1 = 1 / 64" "raw_exposure GroupB ?gs ?sh1 = 0"
    "raw_exposure GroupA ?gs ?sh2 = 1 / 128" "raw_exposure GroupB ?gs ?sh2 = 0"
    by (simp_all add: raw_exposure_def safe_div_def fdiv_def sum_group_replicate
        count_group_replicate sum_list_replicate double_round_simple)
  have s: "fsub (1 / 64) 0 = 1 / 64" "fsub (1 / 128) 0 = 1 / 128"
    "fsub (1 / 128) (1 / 64) = - (1 / 128)"
    using double_round_dyadic [of "- 1" 7]
    by (simp_all add: fsub_def fadd_def is_inf_def double_round_simple)
  have v2: "double_round 0.007812 = 9006622793988689 / 2 ^ 60"
    using double_round_eval [of "- 8" "0.007812"]
    by (simp add: round_half_even_def Let_def)
  have v2n: "double_round (- 0.007812) = - (9006622793988689 / 2 ^ 60)"
    using double_round_eval [of "- 8" "- 0.007812"]
    by (simp add: round_half_even_def Let_def)
  have r1: "py_round (1 / 64) 6 = 1 / 64"
    by (simp add: py_round_def round_half_even_def Let_def double_round_simple)
  have r2: "py_round (1 / 128) 6 = 9006622793988689 / 2 ^ 60"
    using v2 by (simp add: py_round_def round_half_even_def Let_def)
  have r3: "py_round (- (1 / 128)) 6 = - (9006622793988689 / 2 ^ 60)"
    using v2n by (simp add: py_round_def round_half_even_def Let_def)
  have d1: "disparity_exposure m1 = 1 / 64"
    using metrics_fields(3) [OF m1] unfolding e s r1 .
  have d2: "disparity_exposure m2 = 9006622793988689 / 2 ^ 60"
    using metrics_fields(3) [OF m2] unfolding e s r2 .
  have ri: "reinforcement_index m2 = - (9006622793988689 / 2 ^ 60)"
    using metrics_fields(4) [OF m2] unfolding e s d1 option.case r3 .
  have f1: "fsub (9006622793988689 / 2 ^ 60) (1 / 64) = - (562985982218331 / 2 ^ 56)"
    using double_round_eval [of "- 7" "9006622793988689 / 2 ^ 60 - 1 / 64"]
    by (simp add: fsub_def fadd_def is_inf_def round_half_even_def Let_def)
  show ?thesis
  proof (intro exI conjI)
    show "compute_iteration_metrics ?gs ?sh1 (replicate 128 0)
      (replicate 128 False) (1 / 2) (1 / 2) None = Inr m1" by (rule m1)
    show "compute_iteration_metrics ?gs ?sh2 (replicate 128 0)
      (replicate 128 False) (1 / 2) (1 / 2) (Some (disparity_exposure m1)) = Inr m2"
      by (rule m2)
    show "disparity_exposure m1 = 0.015625" unfolding d1 by simp
    show "disparity_exposure m2 = double_round 0.007812" unfolding d2 v2 ..
    show "reinforcement_index m2 = double_round (- 0.007812)" unfolding ri v2n ..
    show "reinforcement_index m2 \<noteq> disparity_exposure m2 - disparity_exposure m1"
      unfolding ri d1 d2 by simp
    show "reinforcement_index m2 \<noteq> fsub (disparity_exposure m2) (disparity_exposure m1)"
      unfolding ri d1 d2 f1 by simp
    show "reinforcement_index m2 \<noteq> 1 / 128 - disparity_exposure m1"
      unfolding ri d1 by simp
    show "reinforcement_index m2 \<noteq> fsub (1 / 128) (disparity_exposure m1)"
      unfolding ri d1 s by simp
  qed
qed

subsection \<open>Stable sorting and ranks\<close>

text \<open>
  A list whose indices increase, sorted stably on a key, is ordered by key first and by
  index among equal keys; and in a list ordered by an asymmetric relation without
  repetitions, the first \<open>m\<close> elements are those with fewer than \<open>m\<close> elements ahead.
\<close>

lemma insort_key_ranked:
  fixes f :: "'a \<Rightarrow> real" and idx :: "'a \<Rightarrow> nat"
  assumes "sorted_wrt (\<lambda>a b. f a < f b \<or> (f a = f b \<and> idx a < idx b)) ys"
    and "\<forall>y \<in> set ys. idx x < idx y"
  shows "sorted_wrt (\<lambda>a b. f a < f b \<or> (f a = f b \<and> idx a < idx b)) (insort_key f x ys)"
  using assms
proof (induction ys)
  case Nil
  show ?case by simp
next
  case (Cons y ys)
  show ?case
  proof (cases "f x \<le> f y")
    case True
    have "f x < f z \<or> (f x = f z \<and> idx x < idx z)" if "z \<in> set (y # ys)" for z
    proof -
      have "f y \<le> f z" using that Cons.prems(1) by auto
      moreover have "idx x < idx z" using that Cons.prems(2) by auto
      ultimately show ?thesis using True by auto
    qed
    then show ?thesis using True Cons.prems(1) by simp
  next
    case False
    have "sorted_wrt (\<lambda>a b. f a < f b \<or> (f a = f b \<and> idx a < idx b)) (insort_key f x ys)"
      using Cons.IH Cons.prems by simp
    moreover have "f y < f z \<or> (f y = f z \<and> idx y < idx z)"
      if "z \<in> set (insort_key f x ys)" for z
      using that False Cons.prems(1) by (auto simp: set_insort_key)
    ultimately show ?thesis using False by simp
  qed
qed

lemma sort_key_ranked:
  fixes f :: "'a \<Rightarrow> real" and idx :: "'a \<Rightarrow> nat"
  assumes "sorted_wrt (\<lambda>a b. idx a < idx b) xs"
  shows "sorted_wrt (\<lambda>a b. f a < f b \<or> (f a = f b \<and> idx a < idx b)) (sort_key f xs)"
  using assms
proof (induction xs)
  case Nil
  show ?case by simp
next
  case (Cons x xs)
  have "sorted_wrt (\<lambda>a b. f a < f b \<or> (f a = f b \<and> idx a < idx b)) (sort_key f xs)"
    using Cons by simp
  moreover have "\<forall>y \<in> set (sort_key f xs). idx x < idx y"
    using Cons.prems by simp
  ultimately show ?case
    by (simp add: insort_key_ranked)
qed

lemma sorted_wrt_before_take:
  assumes sw: "sorted_wrt P ys" and d: "distinct ys"
    and asym: "\<And>a b. P a b \<Longrightarrow> \<not> P b a"
    and k: "k < length ys"
  shows "{y \<in> set ys. P y (ys ! k)} = set (take k ys)"
proof
  show "{y \<in> set ys. P y (ys ! k)} \<subseteq> set (take k ys)"
  proof
    fix y assume "y \<in> {y \<in> set ys. P y (ys ! k)}"
    then have y: "y \<in> set ys" and p: "P y (ys ! k)" by auto
    from y obtain j where j: "j < length ys" "ys ! j = y"
      by (auto simp: in_set_conv_nth)
    have "j < k"
    proof (rule ccontr)
      assume "\<not> j < k"
      then consider "j = k" | "k < j" by linarith
      then show False
      proof cases
        case 1
        then show ?thesis using p j asym by blast
      next
        case 2
        then have "P (ys ! k) (ys ! j)"
          using sw j(1) sorted_wrt_iff_nth_less [of P ys] by blast
        then show ?thesis using p j asym by blast
      qed
    qed
    then show "y \<in> set (take k ys)"
      using j by (auto simp: in_set_conv_nth)
  qed
  show "set (take k ys) \<subseteq> {y \<in> set ys. P y (ys ! k)}"
  proof
    fix y assume "y \<in> set (take k ys)"
    then obtain j where j: "j < k" "j < length ys" "ys ! j = y"
      by (auto simp: in_set_conv_nth)
    have "P (ys ! j) (ys ! k)"
      using sw k j(1) sorted_wrt_iff_nth_less [of P ys] by blast
    then show "y \<in> {y \<in> set ys. P y (ys ! k)}"
      using j by auto
  qed
qed

lemma sorted_wrt_take_rank:
  assumes sw: "sorted_wrt P ys" and d: "distinct ys"
    and asym: "\<And>a b. P a b \<Longrightarrow> \<not> P b a"
    and x: "x \<in> set ys"
  shows "x \<in> set (take m ys) \<longleftrightarrow> card {y \<in> set ys. P y x} < m"
proof -
  from x obtain k where k: "k < length ys" "ys ! k = x"
    by (auto simp: in_set_conv_nth)
  have "{y \<in> set ys. P y x} = set (take k ys)"
    using sorted_wrt_before_take [OF sw d asym k(1)] k(2) by simp
  moreover have "card (set (take k ys)) = k"
    using d k(1) by (simp add: distinct_card)
  ultimately have c: "card {y \<in> set ys. P y x} = k" by simp
  have "x \<in> set (take m ys) \<longleftrightarrow> k < m"
  proof
    assume "x \<in> set (take m ys)"
    then obtain j where j: "j < m" "j < length ys" "ys ! j = x"
      by (auto simp: in_set_conv_nth)
    then have "j = k"
      using d k nth_eq_iff_index_eq [of ys j k] by simp
    then show "k < m" using j by simp
  next
    assume "k < m"
    then show "x \<in> set (take m ys)"
      using k by (auto simp: in_set_conv_nth)
  qed
  then show ?thesis using c by simp
qed


subsection \<open>The accepted set is the top of the ranking\<close>

lemma accepted_set_ranked:
  fixes recs :: "applicant_record list"
  assumes len: "length recs = length agents"
    and idx: "\<And>k. k < length agents \<Longrightarrow> r_idx (recs ! k) = k"
    and sc: "\<And>k. k < length agents \<Longrightarrow>
               r_final_score (recs ! k) = final_score_of hr (agents ! k)"
    and mt: "\<And>k. k < length agents \<Longrightarrow>
               r_meets_threshold (recs ! k)
                 = (hiring_threshold hr \<le> final_score_of hr (agents ! k))"
  shows "set (map r_idx (take (nat (capacity_cap hr (length agents)))
            (sort_key (\<lambda>r. - r_final_score r) (filter r_meets_threshold recs))))
           = top_ranked_eligible hr agents"
    and "int (card (set (map r_idx (take (nat (capacity_cap hr (length agents)))
            (sort_key (\<lambda>r. - r_final_score r) (filter r_meets_threshold recs))))))
           \<le> capacity_cap hr (length agents)"
proof -
  let ?n = "length agents"
  let ?S = "set (map r_idx (take (nat (capacity_cap hr (length agents)))
            (sort_key (\<lambda>r. - r_final_score r) (filter r_meets_threshold recs))))"
  let ?B = "\<lambda>a b. - r_final_score a < - r_final_score b
              \<or> (- r_final_score a = - r_final_score b \<and> r_idx a < r_idx b)"
  define el where "el = filter r_meets_threshold recs"
  define ranked where "ranked = sort_key (\<lambda>r. - r_final_score r) el"
  define m where "m = nat (capacity_cap hr ?n)"
  have acc: "?S = r_idx ` set (take m ranked)"
    by (simp add: el_def ranked_def m_def)
  have m_cap: "int m = capacity_cap hr ?n"
    by (simp add: m_def capacity_cap_def)
  have map_idx: "map r_idx recs = [0..<?n]"
    by (rule nth_equalityI) (simp_all add: len idx)
  have "sorted_wrt (<) (map r_idx recs)"
    unfolding map_idx by simp
  then have sw_recs: "sorted_wrt (\<lambda>a b. r_idx a < r_idx b) recs"
    by (simp add: sorted_wrt_map)
  have sw_el: "sorted_wrt (\<lambda>a b. r_idx a < r_idx b) el"
    unfolding el_def using sw_recs by (rule sorted_wrt_filter)
  have sw_ranked: "sorted_wrt ?B ranked"
    unfolding ranked_def using sw_el by (rule sort_key_ranked)
  have "distinct (map r_idx recs)"
    unfolding map_idx by simp
  then have d_recs: "distinct recs" and inj: "inj_on r_idx (set recs)"
    by (simp_all add: distinct_map)
  have set_ranked: "set ranked = {x \<in> set recs. r_meets_threshold x}"
    by (simp add: ranked_def el_def)
  have d_ranked: "distinct ranked"
    by (simp add: ranked_def el_def d_recs)
  have asym: "\<not> ?B b a" if "?B a b" for a b
    using that by auto
  have rec_of: "r_idx x < ?n \<and> recs ! r_idx x = x" if "x \<in> set recs" for x
  proof -
    from that obtain k where "k < length recs" "recs ! k = x"
      by (auto simp: in_set_conv_nth)
    then show ?thesis using idx [of k] len by auto
  qed
  have in_ranked: "recs ! i \<in> set ranked
      \<longleftrightarrow> hiring_threshold hr \<le> final_score_of hr (agents ! i)" if "i < ?n" for i
    using that len by (simp add: set_ranked mt)
  have B_ahead: "?B (recs ! j) (recs ! i) \<longleftrightarrow> ranked_ahead hr agents j i"
    if "i < ?n" "j < ?n" for i j
    using that by (auto simp: ranked_ahead_def sc idx)
  have rank_eq: "card {y \<in> set ranked. ?B y (recs ! i)} = rank_of hr agents i"
    if i: "i < ?n" for i
  proof -
    have "r_idx ` {y \<in> set ranked. ?B y (recs ! i)}
        = {j. j < ?n \<and> hiring_threshold hr \<le> final_score_of hr (agents ! j)
                \<and> ranked_ahead hr agents j i}"
    proof (rule set_eqI, rule iffI)
      fix j assume "j \<in> r_idx ` {y \<in> set ranked. ?B y (recs ! i)}"
      then obtain y where y: "y \<in> set ranked" "?B y (recs ! i)" "r_idx y = j"
        by auto
      then have yr: "y \<in> set recs" by (simp add: set_ranked)
      then have j: "j < ?n" "recs ! j = y" using rec_of [OF yr] y(3) by auto
      show "j \<in> {j. j < ?n \<and> hiring_threshold hr \<le> final_score_of hr (agents ! j)
                \<and> ranked_ahead hr agents j i}"
        using j y(1,2) in_ranked [OF j(1)] B_ahead [OF i j(1)] by simp
    next
      fix j assume "j \<in> {j. j < ?n \<and> hiring_threshold hr \<le> final_score_of hr (agents ! j)
                \<and> ranked_ahead hr agents j i}"
      then have j: "j < ?n" "hiring_threshold hr \<le> final_score_of hr (agents ! j)"
        "ranked_ahead hr agents j i" by auto
      have a: "recs ! j \<in> {y \<in> set ranked. ?B y (recs ! i)}"
        using j in_ranked [OF j(1)] B_ahead [OF i j(1)] by simp
      have b: "r_idx (recs ! j) = j" using idx j(1) by simp
      show "j \<in> r_idx ` {y \<in> set ranked. ?B y (recs ! i)}"
      proof (rule image_eqI [where x = "recs ! j"])
        show "j = r_idx (recs ! j)" using b by simp
        show "recs ! j \<in> {y \<in> set ranked. ?B y (recs ! i)}" by (rule a)
      qed
    qed
    then have "card (r_idx ` {y \<in> set ranked. ?B y (recs ! i)})
        = card {j. j < ?n \<and> hiring_threshold hr \<le> final_score_of hr (agents ! j)
                \<and> ranked_ahead hr agents j i}"
      by (rule arg_cong)
    moreover have "inj_on r_idx {y \<in> set ranked. ?B y (recs ! i)}"
      by (rule inj_on_subset [OF inj]) (auto simp: set_ranked)
    then have "card (r_idx ` {y \<in> set ranked. ?B y (recs ! i)})
        = card {y \<in> set ranked. ?B y (recs ! i)}"
      by (rule card_image)
    ultimately have "card {y \<in> set ranked. ?B y (recs ! i)}
        = card {j. j < ?n \<and> hiring_threshold hr \<le> final_score_of hr (agents ! j)
                \<and> ranked_ahead hr agents j i}"
      by simp
    also have "{j. j < ?n \<and> hiring_threshold hr \<le> final_score_of hr (agents ! j)
                \<and> ranked_ahead hr agents j i}
        = set (filter (\<lambda>j. ranked_ahead hr agents j i)
                  (filter (\<lambda>j. hiring_threshold hr \<le> final_score_of hr (agents ! j))
                     [0..<?n]))"
      by auto
    finally show ?thesis by (simp add: rank_of_def)
  qed
  have top: "i \<in> top_ranked_eligible hr agents
      \<longleftrightarrow> i < ?n \<and> hiring_threshold hr \<le> final_score_of hr (agents ! i)
          \<and> int (rank_of hr agents i) < capacity_cap hr ?n" for i
    by (auto simp: top_ranked_eligible_def)
  show "?S = top_ranked_eligible hr agents"
  proof (rule set_eqI, rule iffI)
    fix i assume "i \<in> ?S"
    then obtain x where x: "x \<in> set (take m ranked)" "r_idx x = i"
      unfolding acc by auto
    then have xr: "x \<in> set ranked" by (meson in_set_takeD)
    then have "x \<in> set recs" by (simp add: set_ranked)
    then have i: "i < ?n" "recs ! i = x" using rec_of x(2) by auto
    have "card {y \<in> set ranked. ?B y x} < m"
      using sorted_wrt_take_rank [OF sw_ranked d_ranked asym xr, of m] x(1) by simp
    then have "rank_of hr agents i < m"
      using rank_eq [OF i(1)] i(2) by simp
    then show "i \<in> top_ranked_eligible hr agents"
      using i xr in_ranked [OF i(1)] m_cap by (simp add: top)
  next
    fix i assume "i \<in> top_ranked_eligible hr agents"
    then have i: "i < ?n" "hiring_threshold hr \<le> final_score_of hr (agents ! i)"
      "int (rank_of hr agents i) < capacity_cap hr ?n"
      by (simp_all add: top)
    have xr: "recs ! i \<in> set ranked" using in_ranked [OF i(1)] i(2) by simp
    have "card {y \<in> set ranked. ?B y (recs ! i)} < m"
      using rank_eq [OF i(1)] i(3) m_cap by simp
    then have a: "recs ! i \<in> set (take m ranked)"
      using sorted_wrt_take_rank [OF sw_ranked d_ranked asym xr, of m] by simp
    have b: "r_idx (recs ! i) = i" using idx i(1) by simp
    show "i \<in> ?S"
      unfolding acc
    proof (rule image_eqI [where x = "recs ! i"])
      show "i = r_idx (recs ! i)" using b by simp
      show "recs ! i \<in> set (take m ranked)" by (rule a)
    qed
  qed
  have "card (r_idx ` set (take m ranked)) \<le> card (set (take m ranked))"
    by (rule card_image_le) simp
  also have "\<dots> \<le> length (take m ranked)"
    by (rule card_length)
  also have "\<dots> \<le> m" by simp
  finally show "int (card (?S)) \<le> capacity_cap hr ?n"
    unfolding acc using m_cap by simp
qed

lemma round_accepted_top:
  assumes "accepted_set_of (st_hr s) (round_records G s) = Inr A"
  shows "A = top_ranked_eligible (st_hr s) (st_agents s)"
    and "int (card A) \<le> capacity_cap (st_hr s) (length (st_agents s))"
proof -
  have A: "A = set (map r_idx (take (nat (capacity_cap (st_hr s) (length (st_agents s))))
                  (sort_key (\<lambda>r. - r_final_score r)
                     (filter r_meets_threshold (round_records G s)))))"
    using assms by (simp add: round_accepted_cases split: if_splits)
  show "A = top_ranked_eligible (st_hr s) (st_agents s)"
    unfolding A
    by (rule accepted_set_ranked [OF round_records_length round_records_nth]; assumption)
  show "int (card A) \<le> capacity_cap (st_hr s) (length (st_agents s))"
    unfolding A
    by (rule accepted_set_ranked [OF round_records_length round_records_nth]; assumption)
qed

lemma eligible_agents_iff:
  "i \<in> eligible_agents hr agents
     \<longleftrightarrow> i < length agents \<and> hiring_threshold hr \<le> final_score_of hr (agents ! i)"
  by (auto simp: eligible_agents_def)

lemma top_ranked_iff:
  "i \<in> top_ranked_eligible hr agents
     \<longleftrightarrow> i \<in> eligible_agents hr agents
         \<and> int (rank_of hr agents i) < capacity_cap hr (length agents)"
  by (auto simp: top_ranked_eligible_def eligible_agents_def)

lemma rank_of_less:
  assumes "i \<in> eligible_agents hr agents"
  shows "rank_of hr agents i < card (eligible_agents hr agents)"
proof -
  have fin: "finite (eligible_agents hr agents)"
    by (simp add: eligible_agents_def)
  have "set (filter (\<lambda>j. ranked_ahead hr agents j i)
                  (filter (\<lambda>j. hiring_threshold hr \<le> final_score_of hr (agents ! j))
                     [0..<length agents]))
        \<subseteq> eligible_agents hr agents - {i}"
    by (auto simp: eligible_agents_def ranked_ahead_def)
  then have "rank_of hr agents i \<le> card (eligible_agents hr agents - {i})"
    unfolding rank_of_def using fin by (simp add: card_mono)
  also have "\<dots> < card (eligible_agents hr agents)"
    using assms fin by (rule_tac card_Diff1_less)
  finally show ?thesis .
qed

lemma top_ranked_respects_capacity:
  "respects_capacity hr agents (top_ranked_eligible hr agents)"
  unfolding respects_capacity_def
proof (intro conjI impI)
  show sub: "top_ranked_eligible hr agents \<subseteq> eligible_agents hr agents"
    by (auto simp: top_ranked_iff)
  define recs where "recs = map (\<lambda>i. \<lparr>r_idx = i, r_group = group (agents ! i),
                                 r_final_score = final_score_of hr (agents ! i),
                                 r_chosen_high = 0,
                                 r_meets_threshold =
                                   (hiring_threshold hr \<le> final_score_of hr (agents ! i))\<rparr>)
                       [0..<length agents]"
  have len: "length recs = length agents"
    by (simp add: recs_def)
  have idx: "\<And>k. k < length agents \<Longrightarrow> r_idx (recs ! k) = k"
    by (simp add: recs_def)
  have sc: "\<And>k. k < length agents \<Longrightarrow>
               r_final_score (recs ! k) = final_score_of hr (agents ! k)"
    by (simp add: recs_def)
  have mt: "\<And>k. k < length agents \<Longrightarrow>
               r_meets_threshold (recs ! k)
                 = (hiring_threshold hr \<le> final_score_of hr (agents ! k))"
    by (simp add: recs_def)
  have R1: "set (map r_idx (take (nat (capacity_cap hr (length agents)))
                (sort_key (\<lambda>r. - r_final_score r) (filter r_meets_threshold recs))))
              = top_ranked_eligible hr agents"
    by (rule accepted_set_ranked(1) [OF len]) (simp_all add: idx sc mt)
  have R2: "int (card (set (map r_idx (take (nat (capacity_cap hr (length agents)))
                (sort_key (\<lambda>r. - r_final_score r) (filter r_meets_threshold recs))))))
              \<le> capacity_cap hr (length agents)"
    by (rule accepted_set_ranked(2) [OF len]) (simp_all add: idx sc mt)
  show "int (card (top_ranked_eligible hr agents)) \<le> capacity_cap hr (length agents)"
    using R2 unfolding R1 .
  assume c: "int (card (eligible_agents hr agents)) \<le> capacity_cap hr (length agents)"
  have "i \<in> top_ranked_eligible hr agents" if "i \<in> eligible_agents hr agents" for i
  proof -
    have "int (rank_of hr agents i) < capacity_cap hr (length agents)"
      using rank_of_less [OF that] c by linarith
    then show ?thesis
      using that by (simp add: top_ranked_iff)
  qed
  then show "top_ranked_eligible hr agents = eligible_agents hr agents"
    using sub by blast
qed

text \<open>The accepted set of a round that returns is the top of the ranking.\<close>

lemma iteration_accepted:
  assumes "iteration G s = Inr s'"
  shows "accepted_in_round G s s' (top_ranked_eligible (st_hr s) (st_agents s))"
proof -
  obtain A m where A: "accepted_set_of (st_hr s) (round_records G s) = Inr A"
    and m: "compute_iteration_metrics (map group (st_agents s)) (round_shown G s)
             (round_chosen G s) (map (\<lambda>i. i \<in> A) [0..<length (st_agents s)])
             (p_high (platform_feedback (round_records G s) A (st_platform s)) GroupA)
             (p_high (platform_feedback (round_records G s) A (st_platform s)) GroupB)
             (st_prev_disparity s) = Inr m"
    and s': "s' = s\<lparr>st_agents := map2 internalize (st_agents s) (round_shown G s),
            st_platform := platform_feedback (round_records G s) A (st_platform s),
            st_rng := snd (agent_loop G (st_platform s) (st_hr s) 0 (st_agents s) (st_rng s)),
            st_prev_disparity := Some (disparity_exposure m),
            st_history := st_history s @ [m]\<rparr>"
    using assms by (rule iteration_unfold)
  have top: "A = top_ranked_eligible (st_hr s) (st_agents s)"
    using A by (rule round_accepted_top)
  have "accepted_in_round G s s' A"
    unfolding accepted_in_round_def
    using A m by (simp add: s')
  then show ?thesis
    unfolding top .
qed

text \<open>Every snapshot of a returned history is appended by a round of the run.\<close>

lemma run_simulation_round:
  assumes res: "run_simulation G p = Inr res" and t: "t < length (res_iterations res)"
  obtains st st' where "run_loop G t (init_state G p) = Inr st"
    and "iteration G st = Inr st'"
    and "last (st_history st') = res_iterations res ! t"
proof -
  obtain sf where sf: "run_loop G (nat (iterations p)) (init_state G p) = Inr sf"
    and r: "res = \<lparr>res_iterations = st_history sf, res_params = p\<rparr>"
    and len: "length (st_history sf) = nat (iterations p)"
    using res by (rule run_simulation_unfold)
  have tn: "t < nat (iterations p)" using t len by (simp add: r)
  obtain st st' where st: "run_loop G t (init_state G p) = Inr st"
    and it: "iteration G st = Inr st'"
    and h: "st_history st' = st_history st @ [st_history sf ! t]"
    using sf tn by (rule run_round)
  have "last (st_history st') = res_iterations res ! t"
    by (simp add: h r)
  with st it show ?thesis by (rule that)
qed

subsection \<open>The first round of the small run\<close>

lemma demo_make_step:
  "make_agents demo_rng demo_params (Suc n) r =
     (case make_agents demo_rng demo_params n (Suc (Suc (Suc r))) of (rest, r4) \<Rightarrow>
        (\<lparr>group = (if real (r mod 4) / 4 < 1 / 2 then GroupA else GroupB),
          skill = clamp (1 / 2 + (real (Suc r mod 3) - 1) / 4) 0 1,
          trust_in_algorithm = 3 / 4,
          adaptation_speed = 1 / 4,
          risk_tolerance = 1 / 4,
          preference_for_high =
            clamp (fadd (clamp (1 / 2 + (real (Suc r mod 3) - 1) / 4) 0 1)
                        ((real (Suc (Suc r) mod 3) - 1) / 4)) 0 1\<rparr> # rest, r4))"
  by (simp add: demo_rng_def demo_params_def)

lemma demo_fadd: "fadd (1 / 2) (1 / 4) = 3 / 4"
  by (simp add: fadd_def is_inf_def double_round_simple)

lemma demo_make:
  "make_agents demo_rng demo_params (Suc (Suc (Suc 0))) 42 =
     ([\<lparr>group = GroupB, skill = 1 / 2, trust_in_algorithm = 3 / 4,
        adaptation_speed = 1 / 4, risk_tolerance = 1 / 4, preference_for_high = 3 / 4\<rparr>,
       \<lparr>group = GroupA, skill = 1 / 2, trust_in_algorithm = 3 / 4,
        adaptation_speed = 1 / 4, risk_tolerance = 1 / 4, preference_for_high = 3 / 4\<rparr>,
       \<lparr>group = GroupA, skill = 1 / 2, trust_in_algorithm = 3 / 4,
        adaptation_speed = 1 / 4, risk_tolerance = 1 / 4, preference_for_high = 3 / 4\<rparr>], 51)"
proof -
  have n: "Suc (Suc (Suc 42)) = 45" "Suc (Suc (Suc 45)) = 48" "Suc (Suc (Suc 48)) = 51"
    by simp_all
  have a: "make_agents demo_rng demo_params 0 51 = ([], 51)" by simp
  have b: "make_agents demo_rng demo_params (Suc 0) 48 =
     ([\<lparr>group = GroupA, skill = 1 / 2, trust_in_algorithm = 3 / 4,
        adaptation_speed = 1 / 4, risk_tolerance = 1 / 4, preference_for_high = 3 / 4\<rparr>], 51)"
    unfolding demo_make_step [of 0 48] n a prod.case
    by (simp add: clamp_def demo_fadd)
  have c: "make_agents demo_rng demo_params (Suc (Suc 0)) 45 =
     ([\<lparr>group = GroupA, skill = 1 / 2, trust_in_algorithm = 3 / 4,
        adaptation_speed = 1 / 4, risk_tolerance = 1 / 4, preference_for_high = 3 / 4\<rparr>,
       \<lparr>group = GroupA, skill = 1 / 2, trust_in_algorithm = 3 / 4,
        adaptation_speed = 1 / 4, risk_tolerance = 1 / 4, preference_for_high = 3 / 4\<rparr>], 51)"
    unfolding demo_make_step [of "Suc 0" 45] n b prod.case
    by (simp add: clamp_def demo_fadd)
  show ?thesis
    unfolding demo_make_step [of "Suc (Suc 0)" 42] n c prod.case
    by (simp add: clamp_def demo_fadd)
qed

lemma demo_count: "nat (n_agents demo_params) = Suc (Suc (Suc 0))"
  by (simp add: demo_params_def)

lemma demo_init:
  "init_state demo_rng demo_params =
     \<lparr>st_agents =
        [\<lparr>group = GroupB, skill = 1 / 2, trust_in_algorithm = 3 / 4,
          adaptation_speed = 1 / 4, risk_tolerance = 1 / 4, preference_for_high = 3 / 4\<rparr>,
         \<lparr>group = GroupA, skill = 1 / 2, trust_in_algorithm = 3 / 4,
          adaptation_speed = 1 / 4, risk_tolerance = 1 / 4, preference_for_high = 3 / 4\<rparr>,
         \<lparr>group = GroupA, skill = 1 / 2, trust_in_algorithm = 3 / 4,
          adaptation_speed = 1 / 4, risk_tolerance = 1 / 4, preference_for_high = 3 / 4\<rparr>],
      st_hr = \<lparr>trust_in_model = 1 / 2, institutional_bias = 1 / 8,
               hiring_threshold = 15 / 32, hiring_capacity = 1 / 4\<rparr>,
      st_platform = \<lparr>learning_rate = 1 / 4, diversity_regularization = 1 / 8,
                     feedback_weight = 1 / 2, p_high = (\<lambda>g. 1 / 2)\<rparr>,
      st_rng = 51, st_prev_disparity = None, st_history = []\<rparr>"
proof -
  have s: "rng_seed demo_rng (seed demo_params) = 42"
    by (simp add: demo_rng_def demo_params_def)
  show ?thesis
    unfolding init_state_def demo_count s demo_make
    by (simp add: demo_params_def)
qed

text \<open>
  The final scores of the two kinds of agent of the small run, under its HR department:
  \<open>7/16\<close> for the agent of group B and \<open>1/2\<close> for those of group A, both computed
  without rounding error.
\<close>

lemma demo_score:
  "final_score_of \<lparr>trust_in_model = 1 / 2, institutional_bias = 1 / 8,
                   hiring_threshold = 15 / 32, hiring_capacity = c\<rparr>
     \<lparr>group = GroupB, skill = 1 / 2, trust_in_algorithm = 3 / 4,
      adaptation_speed = 1 / 4, risk_tolerance = 1 / 4, preference_for_high = 3 / 4\<rparr> = 7 / 16"
  "final_score_of \<lparr>trust_in_model = 1 / 2, institutional_bias = 1 / 8,
                   hiring_threshold = 15 / 32, hiring_capacity = c\<rparr>
     \<lparr>group = GroupA, skill = 1 / 2, trust_in_algorithm = 3 / 4,
      adaptation_speed = 1 / 4, risk_tolerance = 1 / 4, preference_for_high = 3 / 4\<rparr> = 1 / 2"
  by (simp_all add: final_score_of_def fadd_def fsub_def fmul_def is_inf_def double_round_simple)

lemma demo_scores:
  "map (final_score_of (st_hr (init_state demo_rng demo_params)))
     (st_agents (init_state demo_rng demo_params)) = [7 / 16, 1 / 2, 1 / 2]"
  unfolding demo_init by (simp add: demo_score)

lemma demo_eligible:
  "eligible_agents (st_hr (init_state demo_rng demo_params))
     (st_agents (init_state demo_rng demo_params)) = {1, 2}"
  unfolding demo_init
  by (auto simp: eligible_agents_iff demo_score less_Suc_eq nth_Cons split: nat.splits)

lemma demo_cap:
  "capacity_cap (st_hr (init_state demo_rng demo_params))
     (length (st_agents (init_state demo_rng demo_params))) = 1"
  unfolding demo_init by (simp add: capacity_cap_def fmul_def double_round_simple)

lemma demo_rank:
  "rank_of (st_hr (init_state demo_rng demo_params))
     (st_agents (init_state demo_rng demo_params)) 1 = 0"
  "rank_of (st_hr (init_state demo_rng demo_params))
     (st_agents (init_state demo_rng demo_params)) 2 = 1"
  unfolding demo_init
  by (simp_all add: rank_of_def ranked_ahead_def demo_score upt_rec [of 0] upt_rec [of 1]
      upt_rec [of 2])

lemma demo_top:
  "top_ranked_eligible (st_hr (init_state demo_rng demo_params))
     (st_agents (init_state demo_rng demo_params)) = {1}"
  using demo_eligible demo_rank
  by (auto simp: top_ranked_iff demo_cap)

lemma demo_round_cap_ok: "round_cap_ok (init_state demo_rng demo_params)"
  by (simp add: init_cap_ok demo_cap_ok)

subsection \<open>Capacity-capped hiring\<close>

text \<open>
  C4. Whenever the round started in any state returns, its accepted set (the set it
  computes from its records, uses for the platform feedback and for the accepted flags
  of the snapshot it appends) is exactly the set of eligible agents whose rank is below
  \<open>max(1, floor(hiring_capacity * N))\<close>, where the rank of an agent counts the eligible
  agents with a higher final score together with the eligible agents of equal final score
  that come earlier in the population; and the round returns when the capacity product
  is finite. In particular every snapshot of the history of a run that returns is the
  one appended by a round of the run whose accepted set is that set.
\<close>

theorem accepted_are_top_ranked:
  "(\<forall>s'. iteration G s = Inr s' \<longrightarrow>
        accepted_in_round G s s' (top_ranked_eligible (st_hr s) (st_agents s)))
   \<and> (round_cap_ok s \<longrightarrow> (\<exists>s'. iteration G s = Inr s'))
   \<and> (\<forall>res. run_simulation G params = Inr res \<longrightarrow>
        (\<forall>t < length (res_iterations res).
           \<exists>st st'. run_loop G t (init_state G params) = Inr st
             \<and> iteration G st = Inr st'
             \<and> last (st_history st') = res_iterations res ! t
             \<and> accepted_in_round G st st' (top_ranked_eligible (st_hr st) (st_agents st))))"
proof (intro conjI allI impI)
  fix s' assume "iteration G s = Inr s'"
  then show "accepted_in_round G s s' (top_ranked_eligible (st_hr s) (st_agents s))"
    by (rule iteration_accepted)
next
  assume "round_cap_ok s"
  then show "\<exists>s'. iteration G s = Inr s'" by (rule iteration_returns)
next
  fix res t
  assume "run_simulation G params = Inr res" and "t < length (res_iterations res)"
  then obtain st st' where st: "run_loop G t (init_state G params) = Inr st"
    and it: "iteration G st = Inr st'"
    and l: "last (st_history st') = res_iterations res ! t"
    by (rule run_simulation_round)
  show "\<exists>st st'. run_loop G t (init_state G params) = Inr st
             \<and> iteration G st = Inr st'
             \<and> last (st_history st') = res_iterations res ! t
             \<and> accepted_in_round G st st' (top_ranked_eligible (st_hr st) (st_agents st))"
    using st it l iteration_accepted [OF it] by blast
qed

text \<open>
  In the first round of the small run agents 1 and 2 are eligible with the same final
  score and the cap is 1: the earlier one, agent 1, is accepted.
\<close>

theorem accepted_are_top_ranked_witness:
  "round_cap_ok (init_state demo_rng demo_params)
   \<and> eligible_agents (st_hr (init_state demo_rng demo_params))
       (st_agents (init_state demo_rng demo_params)) = {1, 2}
   \<and> final_score_of (st_hr (init_state demo_rng demo_params))
         (st_agents (init_state demo_rng demo_params) ! 1) = 1 / 2
   \<and> final_score_of (st_hr (init_state demo_rng demo_params))
         (st_agents (init_state demo_rng demo_params) ! 2) = 1 / 2
   \<and> (\<exists>s'. iteration demo_rng (init_state demo_rng demo_params) = Inr s'
          \<and> accepted_in_round demo_rng (init_state demo_rng demo_params) s' {1})"
proof -
  note th = accepted_are_top_ranked [of demo_rng "init_state demo_rng demo_params" demo_params]
  have sc: "final_score_of (st_hr (init_state demo_rng demo_params))
         (st_agents (init_state demo_rng demo_params) ! 1) = 1 / 2"
    "final_score_of (st_hr (init_state demo_rng demo_params))
         (st_agents (init_state demo_rng demo_params) ! 2) = 1 / 2"
    unfolding demo_init by (simp_all add: demo_score)
  obtain s' where s': "iteration demo_rng (init_state demo_rng demo_params) = Inr s'"
    using th demo_round_cap_ok by blast
  have "accepted_in_round demo_rng (init_state demo_rng demo_params) s'
          (top_ranked_eligible (st_hr (init_state demo_rng demo_params))
             (st_agents (init_state demo_rng demo_params)))"
    using th s' by blast
  then have "accepted_in_round demo_rng (init_state demo_rng demo_params) s' {1}"
    unfolding demo_top .
  then show ?thesis
    using demo_round_cap_ok demo_eligible sc s' by blast
qed

text \<open>
  C3. Whenever the round started in any state returns, its accepted set respects the
  capacity: the accepted agents are eligible, there are at most
  \<open>max(1, floor(hiring_capacity * N))\<close> of them, and when the number of eligible agents
  does not exceed that cap the accepted agents are exactly the eligible ones; and the
  round returns when the capacity product is finite. In particular every snapshot of the
  history of a run that returns is the one appended by a round of the run whose accepted
  set respects the capacity.
\<close>

theorem hiring_capacity_respected:
  "(\<forall>s'. iteration G s = Inr s' \<longrightarrow>
        (\<exists>A. accepted_in_round G s s' A \<and> respects_capacity (st_hr s) (st_agents s) A))
   \<and> (round_cap_ok s \<longrightarrow> (\<exists>s'. iteration G s = Inr s'))
   \<and> (\<forall>res. run_simulation G params = Inr res \<longrightarrow>
        (\<forall>t < length (res_iterations res).
           \<exists>st st' A. run_loop G t (init_state G params) = Inr st
             \<and> iteration G st = Inr st'
             \<and> last (st_history st') = res_iterations res ! t
             \<and> accepted_in_round G st st' A
             \<and> respects_capacity (st_hr st) (st_agents st) A))"
proof (intro conjI allI impI)
  fix s' assume "iteration G s = Inr s'"
  then show "\<exists>A. accepted_in_round G s s' A \<and> respects_capacity (st_hr s) (st_agents s) A"
    using iteration_accepted top_ranked_respects_capacity by blast
next
  assume "round_cap_ok s"
  then show "\<exists>s'. iteration G s = Inr s'" by (rule iteration_returns)
next
  fix res t
  assume "run_simulation G params = Inr res" and "t < length (res_iterations res)"
  then obtain st st' where st: "run_loop G t (init_state G params) = Inr st"
    and it: "iteration G st = Inr st'"
    and l: "last (st_history st') = res_iterations res ! t"
    by (rule run_simulation_round)
  show "\<exists>st st' A. run_loop G t (init_state G params) = Inr st
             \<and> iteration G st = Inr st'
             \<and> last (st_history st') = res_iterations res ! t
             \<and> accepted_in_round G st st' A
             \<and> respects_capacity (st_hr st) (st_agents st) A"
    using st it l iteration_accepted [OF it] top_ranked_respects_capacity by blast
qed

text \<open>
  The first round of the small run again, with the capacity raised to \<open>1\<close>: the cap is
  3, the two eligible agents are within it, and exactly they are accepted.
\<close>

theorem hiring_capacity_respected_witness:
  "round_cap_ok ((init_state demo_rng demo_params)
       \<lparr>st_hr := (st_hr (init_state demo_rng demo_params))\<lparr>hiring_capacity := 1\<rparr>\<rparr>)
   \<and> (\<exists>s'. iteration demo_rng ((init_state demo_rng demo_params)
                \<lparr>st_hr := (st_hr (init_state demo_rng demo_params))\<lparr>hiring_capacity := 1\<rparr>\<rparr>)
              = Inr s'
          \<and> accepted_in_round demo_rng ((init_state demo_rng demo_params)
                \<lparr>st_hr := (st_hr (init_state demo_rng demo_params))\<lparr>hiring_capacity := 1\<rparr>\<rparr>)
              s' {1, 2})"
proof -
  let ?s = "(init_state demo_rng demo_params)
              \<lparr>st_hr := (st_hr (init_state demo_rng demo_params))\<lparr>hiring_capacity := 1\<rparr>\<rparr>"
  note th = hiring_capacity_respected [of demo_rng ?s demo_params]
  have ok: "round_cap_ok ?s"
    unfolding demo_init
    by (simp add: round_cap_ok_def fmul_def double_round_simple is_inf_def)
  have el: "eligible_agents (st_hr ?s) (st_agents ?s) = {1, 2}"
    unfolding demo_init
    by (auto simp: eligible_agents_iff demo_score less_Suc_eq nth_Cons split: nat.splits)
  have cap: "capacity_cap (st_hr ?s) (length (st_agents ?s)) = 3"
    unfolding demo_init by (simp add: capacity_cap_def fmul_def double_round_simple)
  obtain s' where s': "iteration demo_rng ?s = Inr s'"
    using th ok by blast
  obtain A where A: "accepted_in_round demo_rng ?s s' A"
    and rc: "respects_capacity (st_hr ?s) (st_agents ?s) A"
    using th s' by blast
  have "A = eligible_agents (st_hr ?s) (st_agents ?s)"
    using rc unfolding respects_capacity_def el cap by simp
  then have "accepted_in_round demo_rng ?s s' {1, 2}"
    using A el by simp
  then show ?thesis
    using ok s' by blast
qed

subsection \<open>The arithmetic at some decimal parameters\<close>

text \<open>
  The cap at the default capacity \<open>0.3\<close> and 200 agents is 60: the exact product of the
  double \<open>0.3\<close> and 200 is just below 60 and rounds to the double 60. At capacity
  \<open>0.58\<close> and 50 agents the cap is 28: the product rounds to a double just below 29.
\<close>

lemma sample_doubles:
  "double_round 0.3 = 5404319552844595 / 2 ^ 54"
  "double_round 0.58 = 5224175567749775 / 2 ^ 53"
  "double_round 0.6 = 5404319552844595 / 2 ^ 53"
  "double_round 0.15 = 5404319552844595 / 2 ^ 55"
  "double_round 0.45 = 8106479329266893 / 2 ^ 54"
  "double_round 0.51 = 2296835809958953 / 2 ^ 52"
  using double_round_eval [of "- 2" "0.3"] double_round_eval [of "- 1" "0.58"]
    double_round_eval [of "- 1" "0.6"] double_round_eval [of "- 3" "0.15"]
    double_round_eval [of "- 2" "0.45"] double_round_eval [of "- 1" "0.51"]
  by (simp_all add: round_half_even_def Let_def)

lemma sample_products:
  "fmul (double_round 0.3) 200 = 60"
  "\<lfloor>double_round 0.3 * 200\<rfloor> = 59"
  "fmul (double_round 0.58) 50 = 29 - 1 / 2 ^ 48"
  unfolding sample_doubles fmul_def
  using double_round_eval [of 5 "5404319552844595 / 2 ^ 54 * 200"]
    double_round_eval [of 4 "5224175567749775 / 2 ^ 53 * 50"]
  by (simp_all add: round_half_even_def Let_def)

lemma sample_caps:
  "capacity_cap default_hr 200 = 60"
  "capacity_cap (default_hr\<lparr>hiring_capacity := double_round 0.58\<rparr>) 50 = 28"
  "max_accept_of (default_hr\<lparr>hiring_capacity := double_round 0.58\<rparr>)
     (replicate 50 r) = Inr 28"
proof -
  have p: "fmul (double_round 0.3) (real 200) = 60"
    "fmul (double_round 0.58) (real 50) = 29 - 1 / 2 ^ 48"
    using sample_products by simp_all
  show "capacity_cap default_hr 200 = 60"
    unfolding capacity_cap_def default_hr_def HRDepartment.simps p by simp
  show c: "capacity_cap (default_hr\<lparr>hiring_capacity := double_round 0.58\<rparr>) 50 = 28"
    unfolding capacity_cap_def default_hr_def HRDepartment.simps p by simp
  have ni: "\<not> is_inf (29 - 1 / 2 ^ 48)"
    by (simp add: is_inf_def)
  have f: "fmul (hiring_capacity (default_hr\<lparr>hiring_capacity := double_round 0.58\<rparr>))
             (of_nat (length (replicate 50 r))) = 29 - 1 / 2 ^ 48"
    using p(2) by simp
  show "max_accept_of (default_hr\<lparr>hiring_capacity := double_round 0.58\<rparr>)
     (replicate 50 r) = Inr 28"
    unfolding max_accept_cases f using ni c by simp
qed

text \<open>
  Under the default HR department an agent of group B with skill \<open>0.51\<close> scores the
  double just below \<open>0.45\<close>, which is below the threshold, the double \<open>0.45\<close>.
\<close>

lemma sample_score:
  "final_score_of default_hr
     \<lparr>group = GroupB, skill = double_round 0.51, trust_in_algorithm = t,
      adaptation_speed = a, risk_tolerance = r, preference_for_high = p\<rparr>
     = 2026619832316723 / 2 ^ 52"
  "2026619832316723 / 2 ^ 52 < hiring_threshold default_hr"
proof -
  have h: "fsub (2296835809958953 / 2 ^ 52) (5404319552844595 / 2 ^ 55)
             = 3242591731706757 / 2 ^ 53"
    using double_round_eval [of "- 2" "2296835809958953 / 2 ^ 52 - 5404319552844595 / 2 ^ 55"]
    by (simp add: fsub_def fadd_def is_inf_def round_half_even_def Let_def)
  have m1: "fmul (5404319552844595 / 2 ^ 53) (2296835809958953 / 2 ^ 52)
             = 5512405943901487 / 2 ^ 54"
    using double_round_eval [of "- 2" "5404319552844595 / 2 ^ 53 * (2296835809958953 / 2 ^ 52)"]
    by (simp add: fmul_def round_half_even_def Let_def)
  have o: "fsub 1 (5404319552844595 / 2 ^ 53) = 3602879701896397 / 2 ^ 53"
    using double_round_eval [of "- 2" "1 - 5404319552844595 / 2 ^ 53"]
    by (simp add: fsub_def fadd_def is_inf_def round_half_even_def Let_def)
  have m2: "fmul (3602879701896397 / 2 ^ 53) (3242591731706757 / 2 ^ 53)
             = 5188146770730811 / 2 ^ 55"
    using double_round_eval [of "- 3" "3602879701896397 / 2 ^ 53 * (3242591731706757 / 2 ^ 53)"]
    by (simp add: fmul_def round_half_even_def Let_def)
  have s: "fadd (5512405943901487 / 2 ^ 54) (5188146770730811 / 2 ^ 55)
             = 2026619832316723 / 2 ^ 52"
    using double_round_eval [of "- 2" "5512405943901487 / 2 ^ 54 + 5188146770730811 / 2 ^ 55"]
    by (simp add: fadd_def is_inf_def round_half_even_def Let_def)
  show "final_score_of default_hr
     \<lparr>group = GroupB, skill = double_round 0.51, trust_in_algorithm = t,
      adaptation_speed = a, risk_tolerance = r, preference_for_high = p\<rparr>
     = 2026619832316723 / 2 ^ 52"
    unfolding final_score_of_def default_hr_def Let_def Agent.simps HRDepartment.simps
      sample_doubles
    by (simp only: simp_thms if_True h m1 o m2 s)
  show "2026619832316723 / 2 ^ 52 < hiring_threshold default_hr"
    unfolding default_hr_def HRDepartment.simps sample_doubles by simp
qed

text \<open>
  The quotient \<open>1/640\<close> as a double lies just above \<open>0.0015625\<close>, so its rounding to
  six decimals is \<open>0.001563\<close>, not the even neighbour \<open>0.001562\<close> of the exact tie.
\<close>

lemma sample_round: "py_round (fdiv 1 640) 6 = double_round 0.001563"
proof -
  have e: "fdiv 1 640 = 3602879701896397 / 2 ^ 61"
    using double_round_eval [of "- 10" "1 / 640"]
    by (simp add: fdiv_def round_half_even_def Let_def)
  show ?thesis
    unfolding e by (simp add: py_round_def round_half_even_def Let_def)
qed

subsection \<open>Determinism\<close>

text \<open>
  Every function of the run that consumes draws returns the same value, and related
  generator states, on two generators that produce the same draws.
\<close>

lemma random_sim:
  assumes "same_draws R G1 G2" and "R a b"
  shows "fst (rng_random G1 a) = fst (rng_random G2 b)"
    and "R (snd (rng_random G1 a)) (snd (rng_random G2 b))"
  using assms unfolding same_draws_def by blast+

lemma gauss_sim:
  assumes "same_draws R G1 G2" and "R a b"
  shows "fst (rng_gauss G1 mu sigma a) = fst (rng_gauss G2 mu sigma b)"
    and "R (snd (rng_gauss G1 mu sigma a)) (snd (rng_gauss G2 mu sigma b))"
  using assms unfolding same_draws_def by blast+

lemma make_agents_sim:
  assumes sd: "same_draws R G1 G2" and r: "R a b"
  shows "fst (make_agents G1 p n a) = fst (make_agents G2 p n b)
       \<and> R (snd (make_agents G1 p n a)) (snd (make_agents G2 p n b))"
  using r
proof (induction n arbitrary: a b)
  case 0
  then show ?case by simp
next
  case (Suc n)
  obtain u a1 where d1: "rng_random G1 a = (u, a1)" by (cases "rng_random G1 a")
  obtain u' b1 where e1: "rng_random G2 b = (u', b1)" by (cases "rng_random G2 b")
  have u: "u' = u" and r1: "R a1 b1"
    using random_sim [OF sd Suc.prems] d1 e1 by simp_all
  obtain z1 a2 where d2: "rng_gauss G1 0.5 (double_round 0.15) a1 = (z1, a2)"
    by (cases "rng_gauss G1 0.5 (double_round 0.15) a1")
  obtain z1' b2 where e2: "rng_gauss G2 0.5 (double_round 0.15) b1 = (z1', b2)"
    by (cases "rng_gauss G2 0.5 (double_round 0.15) b1")
  have z1: "z1' = z1" and r2: "R a2 b2"
    using gauss_sim [OF sd r1, of "0.5" "double_round 0.15"] d2 e2 by simp_all
  obtain z2 a3 where d3: "rng_gauss G1 0 (double_round 0.05) a2 = (z2, a3)"
    by (cases "rng_gauss G1 0 (double_round 0.05) a2")
  obtain z2' b3 where e3: "rng_gauss G2 0 (double_round 0.05) b2 = (z2', b3)"
    by (cases "rng_gauss G2 0 (double_round 0.05) b2")
  have z2: "z2' = z2" and r3: "R a3 b3"
    using gauss_sim [OF sd r2, of 0 "double_round 0.05"] d3 e3 by simp_all
  obtain rest a4 where d4: "make_agents G1 p n a3 = (rest, a4)"
    by (cases "make_agents G1 p n a3")
  obtain rest' b4 where e4: "make_agents G2 p n b3 = (rest', b4)"
    by (cases "make_agents G2 p n b3")
  have "rest' = rest" and "R a4 b4"
    using Suc.IH [OF r3] d4 e4 by simp_all
  then show ?case
    using d1 e1 d2 e2 d3 e3 d4 e4 u z1 z2 by simp
qed

lemma agent_step_sim:
  assumes sd: "same_draws R G1 G2" and r: "R a b"
  shows "fst (agent_step G1 pl hr i ag a) = fst (agent_step G2 pl hr i ag b)
       \<and> R (snd (agent_step G1 pl hr i ag a)) (snd (agent_step G2 pl hr i ag b))"
proof -
  obtain u1 a1 where d1: "rng_random G1 a = (u1, a1)" by (cases "rng_random G1 a")
  obtain v1 b1 where e1: "rng_random G2 b = (v1, b1)" by (cases "rng_random G2 b")
  have u1: "v1 = u1" and r1: "R a1 b1"
    using random_sim [OF sd r] d1 e1 by simp_all
  obtain u2 a2 where d2: "rng_random G1 a1 = (u2, a2)" by (cases "rng_random G1 a1")
  obtain v2 b2 where e2: "rng_random G2 b1 = (v2, b2)" by (cases "rng_random G2 b1")
  have u2: "v2 = u2" and r2: "R a2 b2"
    using random_sim [OF sd r1] d2 e2 by simp_all
  obtain u3 a3 where d3: "rng_random G1 a2 = (u3, a3)" by (cases "rng_random G1 a2")
  obtain v3 b3 where e3: "rng_random G2 b2 = (v3, b3)" by (cases "rng_random G2 b2")
  have u3: "v3 = u3" and r3: "R a3 b3"
    using random_sim [OF sd r2] d3 e3 by simp_all
  show ?thesis
    by (simp add: agent_step_def Let_def d1 e1 d2 e2 d3 e3 u1 u2 u3 r3)
qed

lemma agent_loop_sim:
  assumes sd: "same_draws R G1 G2" and r: "R a b"
  shows "fst (agent_loop G1 pl hr i ags a) = fst (agent_loop G2 pl hr i ags b)
       \<and> R (snd (agent_loop G1 pl hr i ags a)) (snd (agent_loop G2 pl hr i ags b))"
  using r
proof (induction ags arbitrary: i a b)
  case Nil
  then show ?case by simp
next
  case (Cons ag ags)
  obtain out a1 where d1: "agent_step G1 pl hr i ag a = (out, a1)"
    by (cases "agent_step G1 pl hr i ag a")
  obtain out' b1 where e1: "agent_step G2 pl hr i ag b = (out', b1)"
    by (cases "agent_step G2 pl hr i ag b")
  have o: "out' = out" and r1: "R a1 b1"
    using agent_step_sim [OF sd Cons.prems, of pl hr i ag] d1 e1 by simp_all
  obtain outs a2 where d2: "agent_loop G1 pl hr (Suc i) ags a1 = (outs, a2)"
    by (cases "agent_loop G1 pl hr (Suc i) ags a1")
  obtain outs' b2 where e2: "agent_loop G2 pl hr (Suc i) ags b1 = (outs', b2)"
    by (cases "agent_loop G2 pl hr (Suc i) ags b1")
  have "outs' = outs" and "R a2 b2"
    using Cons.IH [OF r1, of "Suc i"] d2 e2 by simp_all
  then show ?case
    by (simp add: d1 e1 d2 e2 o)
qed

lemma iteration_sim:
  assumes sd: "same_draws R G1 G2" and ss: "same_state R s1 s2"
  shows "(\<exists>e. iteration G1 s1 = Inl e \<and> iteration G2 s2 = Inl e)
       \<or> (\<exists>t1 t2. iteration G1 s1 = Inr t1 \<and> iteration G2 s2 = Inr t2 \<and> same_state R t1 t2)"
proof -
  have eq: "st_agents s1 = st_agents s2" "st_hr s1 = st_hr s2" "st_platform s1 = st_platform s2"
    "st_prev_disparity s1 = st_prev_disparity s2" "st_history s1 = st_history s2"
    and r: "R (st_rng s1) (st_rng s2)"
    using ss by (simp_all add: same_state_def)
  have lp: "fst (agent_loop G1 (st_platform s1) (st_hr s1) 0 (st_agents s1) (st_rng s1))
          = fst (agent_loop G2 (st_platform s2) (st_hr s2) 0 (st_agents s2) (st_rng s2))"
    and r': "R (snd (agent_loop G1 (st_platform s1) (st_hr s1) 0 (st_agents s1) (st_rng s1)))
              (snd (agent_loop G2 (st_platform s2) (st_hr s2) 0 (st_agents s2) (st_rng s2)))"
    using agent_loop_sim [OF sd r, of "st_platform s2" "st_hr s2" 0 "st_agents s2"]
    by (simp_all add: eq)
  have outs: "round_outs G1 s1 = round_outs G2 s2"
    using lp by (simp add: round_outs_def)
  have v: "round_shown G1 s1 = round_shown G2 s2" "round_chosen G1 s1 = round_chosen G2 s2"
    "round_records G1 s1 = round_records G2 s2"
    by (simp_all add: round_shown_def round_chosen_def round_records_def outs)
  show ?thesis
  proof (cases "accepted_set_of (st_hr s2) (round_records G2 s2)")
    case (Inl e)
    have "iteration G2 s2 = Inl e"
      using Inl by (rule iteration_error)
    moreover have "iteration G1 s1 = Inl e"
      using Inl by (intro iteration_error) (simp add: v eq)
    ultimately show ?thesis by blast
  next
    case (Inr A)
    have A1: "accepted_set_of (st_hr s1) (round_records G1 s1) = Inr A"
      using Inr by (simp add: v eq)
    obtain m1 where
      c1: "compute_iteration_metrics (map group (st_agents s1)) (round_shown G1 s1)
             (round_chosen G1 s1) (map (\<lambda>i. i \<in> A) [0..<length (st_agents s1)])
             (p_high (platform_feedback (round_records G1 s1) A (st_platform s1)) GroupA)
             (p_high (platform_feedback (round_records G1 s1) A (st_platform s1)) GroupB)
             (st_prev_disparity s1) = Inr m1"
      and i1: "iteration G1 s1 = Inr (s1\<lparr>st_agents := map2 internalize (st_agents s1) (round_shown G1 s1),
                 st_platform := platform_feedback (round_records G1 s1) A (st_platform s1),
                 st_rng := snd (agent_loop G1 (st_platform s1) (st_hr s1) 0 (st_agents s1) (st_rng s1)),
                 st_prev_disparity := Some (disparity_exposure m1),
                 st_history := st_history s1 @ [m1]\<rparr>)"
      using A1 by (rule iteration_result)
    obtain m2 where
      c2: "compute_iteration_metrics (map group (st_agents s2)) (round_shown G2 s2)
             (round_chosen G2 s2) (map (\<lambda>i. i \<in> A) [0..<length (st_agents s2)])
             (p_high (platform_feedback (round_records G2 s2) A (st_platform s2)) GroupA)
             (p_high (platform_feedback (round_records G2 s2) A (st_platform s2)) GroupB)
             (st_prev_disparity s2) = Inr m2"
      and i2: "iteration G2 s2 = Inr (s2\<lparr>st_agents := map2 internalize (st_agents s2) (round_shown G2 s2),
                 st_platform := platform_feedback (round_records G2 s2) A (st_platform s2),
                 st_rng := snd (agent_loop G2 (st_platform s2) (st_hr s2) 0 (st_agents s2) (st_rng s2)),
                 st_prev_disparity := Some (disparity_exposure m2),
                 st_history := st_history s2 @ [m2]\<rparr>)"
      using Inr by (rule iteration_result)
    have m: "m1 = m2"
      using c1 c2 unfolding v eq by simp
    have "same_state R
            (s1\<lparr>st_agents := map2 internalize (st_agents s1) (round_shown G1 s1),
                 st_platform := platform_feedback (round_records G1 s1) A (st_platform s1),
                 st_rng := snd (agent_loop G1 (st_platform s1) (st_hr s1) 0 (st_agents s1) (st_rng s1)),
                 st_prev_disparity := Some (disparity_exposure m1),
                 st_history := st_history s1 @ [m1]\<rparr>)
            (s2\<lparr>st_agents := map2 internalize (st_agents s2) (round_shown G2 s2),
                 st_platform := platform_feedback (round_records G2 s2) A (st_platform s2),
                 st_rng := snd (agent_loop G2 (st_platform s2) (st_hr s2) 0 (st_agents s2) (st_rng s2)),
                 st_prev_disparity := Some (disparity_exposure m2),
                 st_history := st_history s2 @ [m2]\<rparr>)"
      using r' by (simp add: same_state_def eq v m)
    then show ?thesis
      using i1 i2 by blast
  qed
qed

lemma run_loop_sim:
  assumes sd: "same_draws R G1 G2" and ss: "same_state R s1 s2"
  shows "(\<exists>e. run_loop G1 n s1 = Inl e \<and> run_loop G2 n s2 = Inl e)
       \<or> (\<exists>t1 t2. run_loop G1 n s1 = Inr t1 \<and> run_loop G2 n s2 = Inr t2 \<and> same_state R t1 t2)"
  using ss
proof (induction n arbitrary: s1 s2)
  case 0
  then show ?case by simp
next
  case (Suc n)
  consider e where "iteration G1 s1 = Inl e" "iteration G2 s2 = Inl e"
    | t1 t2 where "iteration G1 s1 = Inr t1" "iteration G2 s2 = Inr t2" "same_state R t1 t2"
    using iteration_sim [OF sd Suc.prems] by blast
  then show ?case
  proof cases
    case 1
    then show ?thesis by simp
  next
    case 2
    show ?thesis
      using Suc.IH [OF 2(3)] 2(1,2) by simp
  qed
qed

lemma init_state_sim:
  assumes sd: "same_draws R G1 G2" and r: "R (rng_seed G1 (seed p)) (rng_seed G2 (seed p))"
  shows "same_state R (init_state G1 p) (init_state G2 p)"
proof -
  obtain ags a where d: "make_agents G1 p (nat (n_agents p)) (rng_seed G1 (seed p)) = (ags, a)"
    by (cases "make_agents G1 p (nat (n_agents p)) (rng_seed G1 (seed p))")
  obtain ags' b where e: "make_agents G2 p (nat (n_agents p)) (rng_seed G2 (seed p)) = (ags', b)"
    by (cases "make_agents G2 p (nat (n_agents p)) (rng_seed G2 (seed p))")
  have "ags' = ags" and "R a b"
    using make_agents_sim [OF sd r, of p "nat (n_agents p)"] d e by simp_all
  then show ?thesis
    by (simp add: same_state_def init_state_def d e)
qed

lemma demo_same_draws: "same_draws (\<lambda>a b. b = int a) demo_rng demo_rng_int"
proof -
  have m4: "real_of_int (int a mod 4) = real (a mod 4)" for a
  proof -
    have "int a mod 4 = int (a mod 4)" by (simp add: zmod_int)
    then show ?thesis by (simp only: of_int_of_nat_eq)
  qed
  have m3: "real_of_int (int a mod 3) = real (a mod 3)" for a
  proof -
    have "int a mod 3 = int (a mod 3)" by (simp add: zmod_int)
    then show ?thesis by (simp only: of_int_of_nat_eq)
  qed
  show ?thesis
    by (simp add: same_draws_def demo_rng_def demo_rng_int_def m4 m3)
qed

text \<open>
  C1. A run is determined by its parameters and by the draws of its generator, and by
  nothing else: two invocations with the same parameters, on generators that the seed
  puts in states producing the same draw sequence, have the same outcome, that is they
  return the same result (the same list of snapshots and the same echoed parameters) or
  raise the same exception; the parameters echoed in a result are the parameters passed
  in; and both invocations return when the capacity product of the parameters is finite.
  Two invocations on one generator are the instance where the relation is equality.
\<close>

theorem run_simulation_deterministic:
  assumes "same_draws R G1 G2"
    and "R (rng_seed G1 (seed params)) (rng_seed G2 (seed params))"
  shows "run_simulation G1 params = run_simulation G2 params
         \<and> (\<forall>res. run_simulation G1 params = Inr res \<longrightarrow> res_params res = params)
         \<and> (run_cap_ok params \<longrightarrow>
              (\<exists>res. run_simulation G1 params = Inr res
                 \<and> run_simulation G2 params = Inr res
                 \<and> res_params res = params))"
proof -
  have "same_state R (init_state G1 params) (init_state G2 params)"
    using assms by (rule init_state_sim)
  then consider e where "run_loop G1 (nat (iterations params)) (init_state G1 params) = Inl e"
      "run_loop G2 (nat (iterations params)) (init_state G2 params) = Inl e"
    | t1 t2 where "run_loop G1 (nat (iterations params)) (init_state G1 params) = Inr t1"
      "run_loop G2 (nat (iterations params)) (init_state G2 params) = Inr t2"
      "same_state R t1 t2"
    using run_loop_sim [OF assms(1)] by blast
  then have same: "run_simulation G1 params = run_simulation G2 params"
  proof cases
    case 1
    then show ?thesis by (simp add: run_simulation_cases)
  next
    case 2
    have "st_history t1 = st_history t2"
      using 2(3) by (simp add: same_state_def)
    then show ?thesis
      by (simp add: run_simulation_cases 2(1,2))
  qed
  have echo: "res_params res = params" if "run_simulation G1 params = Inr res" for res
    using that by (auto simp: run_simulation_cases split: sum.splits)
  have "\<exists>res. run_simulation G1 params = Inr res
                 \<and> run_simulation G2 params = Inr res
                 \<and> res_params res = params" if ok: "run_cap_ok params"
  proof -
    obtain res where "run_simulation G1 params = Inr res"
      using run_simulation_returns [of params G1] ok by blast
    then show ?thesis
      using same echo by auto
  qed
  then show ?thesis
    using same echo by blast
qed

theorem run_simulation_deterministic_witness:
  "same_draws (\<lambda>a b. b = int a) demo_rng demo_rng_int
   \<and> rng_seed demo_rng_int (seed demo_params) = int (rng_seed demo_rng (seed demo_params))
   \<and> run_cap_ok demo_params
   \<and> (\<exists>res. run_simulation demo_rng demo_params = Inr res
          \<and> run_simulation demo_rng_int demo_params = Inr res
          \<and> res_params res = demo_params)"
proof -
  have s: "rng_seed demo_rng_int (seed demo_params) = int (rng_seed demo_rng (seed demo_params))"
    by (simp add: demo_rng_def demo_rng_int_def)
  have r: "\<exists>res. run_simulation demo_rng demo_params = Inr res
          \<and> run_simulation demo_rng_int demo_params = Inr res
          \<and> res_params res = demo_params"
    using run_simulation_deterministic [OF demo_same_draws s] demo_cap_ok by blast
  show ?thesis
    by (intro conjI demo_same_draws s demo_cap_ok r)
qed

end
